theory Spec2Isabelle
  imports Main
begin

section \<open>Configuration loading of yt2pod (config.go)\<close>

text \<open>
  A shallow embedding of \<^verbatim>\<open>config.go\<close>: the types \<^verbatim>\<open>config\<close>,
  \<^verbatim>\<open>watcherConfig\<close> and \<^verbatim>\<open>podcast\<close>, the method \<^verbatim>\<open>urlFor\<close>,
  the method \<^verbatim>\<open>Validate\<close> and the function \<^verbatim>\<open>loadConfig\<close>.

  Go strings are byte sequences and are modelled as \<^typ>\<open>string\<close>. Go's \<^verbatim>\<open>int\<close>
  is modelled as \<^typ>\<open>int\<close>: the code only compares and prints the two integer fields,
  it never does arithmetic on them, so no wrap-around can occur.
\<close>

subsection \<open>Errors\<close>

text \<open>
  Go's \<^verbatim>\<open>error\<close> values, one constructor for each origin that \<^verbatim>\<open>loadConfig\<close> can
  return: the failure of \<^verbatim>\<open>ioutil.ReadFile\<close>, the failure of \<^verbatim>\<open>json.Unmarshal\<close>,
  the \<^verbatim>\<open>validation.Errors\<close> map of \<^verbatim>\<open>ValidateStruct\<close> (the fields whose rules
  failed), the message of \<^verbatim>\<open>fmt.Errorf\<close> or \<^verbatim>\<open>errors.New\<close>, the
  \<^verbatim>\<open>*time.ParseError\<close> of \<^verbatim>\<open>time.Parse\<close> (with the offending value) and the
  \<^verbatim>\<open>*syntax.Error\<close> of \<^verbatim>\<open>regexp.Compile\<close> (with the offending expression).
\<close>

datatype field = YTDataAPIKey_field | Podcasts_field

datatype error =
    PathError string
  | JSONError string
  | ValidationErrors "field list"
  | ErrorString string
  | ParseError string
  | SyntaxError string

subsection \<open>Decimal rendering (the verb \<^verbatim>\<open>%d\<close>)\<close>

definition digit :: "nat \<Rightarrow> char" where
  "digit n = char_of (48 + n)"

function FormatUint :: "nat \<Rightarrow> string" where
  "FormatUint n = (if n < 10 then [digit n] else FormatUint (n div 10) @ [digit (n mod 10)])"
  by pat_completeness auto
termination
  by (relation "measure id") auto

declare FormatUint.simps [simp del]

definition Itoa :: "int \<Rightarrow> string" where
  "Itoa i = (if i < 0 then CHR ''-'' # FormatUint (nat (- i)) else FormatUint (nat i))"

subsection \<open>The watcher configuration and \<^verbatim>\<open>urlFor\<close>\<close>

record watcherConfig =
  CheckIntervalMinutes :: int
  YTDLFmtSelector :: string
  YTDLWriteExt :: string
  ServeHost :: string
  ServePort :: int
  ServeDirectoryListings :: bool

text \<open>
  \<^verbatim>\<open>fmt.Sprintf\<close> with the verbs \<^verbatim>\<open>%s\<close> and \<^verbatim>\<open>%d\<close> is concatenation of the
  arguments' renderings; \<^verbatim>\<open>portPart\<close> starts as the empty string.
\<close>

definition urlFor :: "'a watcherConfig_scheme \<Rightarrow> string \<Rightarrow> string" where
  "urlFor wc filePath =
     (let portPart = (if ServePort wc \<noteq> 80 then '':'' @ Itoa (ServePort wc) else '''')
      in ''http://'' @ ServeHost wc @ portPart @ ''/'' @ filePath)"

subsection \<open>\<^verbatim>\<open>time.Parse\<close> with the layout \<^verbatim>\<open>2006-01-02\<close>\<close>

text \<open>
  Every \<^verbatim>\<open>time.Time\<close> that \<^verbatim>\<open>loadConfig\<close> stores is either the zero value or the
  result of \<^verbatim>\<open>time.Parse("2006-01-02", es)\<close>, which is midnight UTC of a civil date. A
  time is therefore modelled by its civil date; the zero value of \<^verbatim>\<open>time.Time\<close> is
  midnight UTC of January 1 of the year 1.
\<close>

record Time =
  year :: nat
  month :: nat
  day :: nat

definition zeroTime :: Time where
  "zeroTime = \<lparr>year = 1, month = 1, day = 1\<rparr>"

definition isDigit :: "string \<Rightarrow> nat \<Rightarrow> bool" where
  "isDigit s i =
     (if length s \<le> i then False
      else (let c = (of_char (s ! i) :: nat) in 48 \<le> c \<and> c \<le> 57))"

definition digitVal :: "char \<Rightarrow> nat" where
  "digitVal c = of_char c - 48"

text \<open>
  \<^verbatim>\<open>atoi\<close> on a string of digits (\<^verbatim>\<open>leadingInt\<close>: \<^verbatim>\<open>x = x*10 + c - '0'\<close> for
  each byte).
\<close>

definition decimal :: "string \<Rightarrow> nat" where
  "decimal ds = foldl (\<lambda>x c. x * 10 + digitVal c) 0 ds"

text \<open>\<^verbatim>\<open>getnum(s, fixed)\<close> with \<^verbatim>\<open>fixed = true\<close>: exactly two digits, or \<^verbatim>\<open>errBad\<close>.\<close>

definition getnum :: "string \<Rightarrow> (nat \<times> string) option" where
  "getnum s =
     (if \<not> isDigit s 0 then None
      else if \<not> isDigit s 1 then None
      else Some (digitVal (s ! 0) * 10 + digitVal (s ! 1), drop 2 s))"

text \<open>\<^verbatim>\<open>skip(value, prefix)\<close> for a prefix without spaces: the value must start with it.\<close>

definition skip :: "string \<Rightarrow> string \<Rightarrow> string option" where
  "skip v prefix = (if take (length prefix) v = prefix then Some (drop (length prefix) v) else None)"

definition isLeap :: "nat \<Rightarrow> bool" where
  "isLeap y = (y mod 4 = 0 \<and> (y mod 100 \<noteq> 0 \<or> y mod 400 = 0))"

definition daysIn :: "nat \<Rightarrow> nat \<Rightarrow> nat" where
  "daysIn m y =
     (if m = 2 \<and> isLeap y then 29
      else if m = 2 then 28
      else if m = 4 \<or> m = 6 \<or> m = 9 \<or> m = 11 then 30
      else 31)"

text \<open>
  The chunks of the layout are the four-digit year (\<^verbatim>\<open>stdLongYear\<close>: at least four
  bytes, the first a digit, and \<^verbatim>\<open>atoi\<close> of the first four bytes, which then must all
  be digits), the literal \<^verbatim>\<open>-\<close>, the two-digit month (\<^verbatim>\<open>stdZeroMonth\<close>, range
  checked at once), the literal \<^verbatim>\<open>-\<close> and the two-digit day (\<^verbatim>\<open>stdZeroDay\<close>). Text
  left over is an error, and the day is validated against the month and the year at the
  end. Every failure is a \<^verbatim>\<open>*time.ParseError\<close> that carries the value.
\<close>

definition time_Parse :: "string \<Rightarrow> error + Time" where
  "time_Parse v =
     (if length v < 4 \<or> \<not> isDigit v 0 then Inl (ParseError v)
      else if \<not> (isDigit v 1 \<and> isDigit v 2 \<and> isDigit v 3) then Inl (ParseError v)
      else
        (let y = decimal (take 4 v)
         in case skip (drop 4 v) ''-'' of
              None \<Rightarrow> Inl (ParseError v)
            | Some v1 \<Rightarrow>
               (case getnum v1 of
                  None \<Rightarrow> Inl (ParseError v)
                | Some (m, v2) \<Rightarrow>
                   if m \<le> 0 \<or> 12 < m then Inl (ParseError v)
                   else
                     (case skip v2 ''-'' of
                        None \<Rightarrow> Inl (ParseError v)
                      | Some v3 \<Rightarrow>
                         (case getnum v3 of
                            None \<Rightarrow> Inl (ParseError v)
                          | Some (d, v4) \<Rightarrow>
                             if v4 \<noteq> [] then Inl (ParseError v)
                             else if d < 1 \<or> d > daysIn m y then Inl (ParseError v)
                             else Inr \<lparr>year = y, month = m, day = d\<rparr>)))))"

subsection \<open>\<^verbatim>\<open>strings.TrimLeft\<close>\<close>

text \<open>All leading bytes that occur in the cutset are removed (the cutset here is ASCII).\<close>

definition TrimLeft :: "string \<Rightarrow> string \<Rightarrow> string" where
  "TrimLeft s cutset = dropWhile (\<lambda>c. c \<in> set cutset) s"

subsection \<open>Podcasts and the configuration\<close>

text \<open>
  The type of compiled regular expressions is a parameter \<open>'re\<close>: the field
  \<^verbatim>\<open>TitleFilter\<close> is a pointer, \<open>None\<close> when nil.
\<close>

record 're podcast =
  YTChannel :: string
  YTChannelID :: string
  YTChannelReadableName :: string
  Name :: string
  ShortName :: string
  Description :: string
  TitleFilterStr :: string
  TitleFilter :: "'re option"
  EpochStr :: string
  Epoch :: Time
  Vidya :: bool
  CustomImagePath :: string

text \<open>The struct \<^verbatim>\<open>config\<close> embeds \<^verbatim>\<open>watcherConfig\<close>.\<close>

record 're config = watcherConfig +
  YTDataAPIKey :: string
  Podcasts :: "'re podcast list"

subsection \<open>\<^verbatim>\<open>Validate\<close>\<close>

text \<open>
  The two rules of the validation library, as the library defines them.
  \<^verbatim>\<open>Required\<close> fails on an empty value. \<^verbatim>\<open>Length(min, max)\<close> fails when the length
  is below a positive \<^verbatim>\<open>min\<close> or above a positive \<^verbatim>\<open>max\<close>; the library documents
  and implements that "an empty value is considered valid. Use the Required rule to make
  sure a value is not empty": its \<^verbatim>\<open>Validate\<close> returns nil at once when the value is
  nil or empty. A rule is modelled by the test that it passes.
\<close>

definition Required :: "'a list \<Rightarrow> bool" where
  "Required v = (v \<noteq> [])"

definition Length :: "nat \<Rightarrow> nat \<Rightarrow> 'a list \<Rightarrow> bool" where
  "Length lo hi v =
     (if v = [] then True
      else \<not> (lo > 0 \<and> length v < lo \<or> hi > 0 \<and> length v > hi))"

text \<open>
  \<^verbatim>\<open>ValidateStruct\<close> checks every field and collects the fields that failed; it returns
  nil when none did.
\<close>

definition Validate :: "'re config \<Rightarrow> error option" where
  "Validate c =
     (let errs = (if Required (YTDataAPIKey c) then [] else [YTDataAPIKey_field])
               @ (if Length 3 0 (Podcasts c) then [] else [Podcasts_field])
      in if errs = [] then None else Some (ValidationErrors errs))"

subsection \<open>The environment of \<^verbatim>\<open>loadConfig\<close>\<close>

text \<open>
  What \<^verbatim>\<open>loadConfig\<close> takes from outside \<^verbatim>\<open>config.go\<close>: the file system behind
  \<^verbatim>\<open>ioutil.ReadFile\<close> (the bytes read and the error), the decoder
  \<^verbatim>\<open>json.Unmarshal\<close> (the value left in the fresh \<^verbatim>\<open>config\<close> and the error),
  \<^verbatim>\<open>regexp.Compile\<close>, and the constant \<^verbatim>\<open>downloadCmdName\<close>, which another file of the
  package declares. \<^verbatim>\<open>Compile\<close> yields \<open>None\<close> where a model of the regular
  expression library does not cover an expression; the library itself, like every total
  model, always yields \<open>Some\<close>.
\<close>

record 're env =
  ReadFile :: "string \<Rightarrow> string \<times> error option"
  Unmarshal :: "string \<Rightarrow> 're config \<times> error option"
  Compile :: "string \<Rightarrow> (error + 're) option"
  downloadCmdName :: string

subsection \<open>\<^verbatim>\<open>loadConfig\<close>\<close>

definition dquote :: char where
  "dquote = CHR 0x22"

text \<open>\<^verbatim>\<open>fmt.Sprintf("(?i:%s)", s)\<close>\<close>

definition foldCaseExpr :: "string \<Rightarrow> string" where
  "foldCaseExpr s = ''(?i:'' @ s @ '')''"

text \<open>\<^verbatim>\<open>fmt.Errorf("multiple podcasts using shortname \"%s\"", sn)\<close>\<close>

definition shortnameError :: "string \<Rightarrow> error" where
  "shortnameError sn =
     ErrorString (''multiple podcasts using shortname '' @ [dquote] @ sn @ [dquote])"

text \<open>
  The body of the loop over \<^verbatim>\<open>c.Podcasts\<close>, in the order of the slice. \<open>seen\<close> is
  \<^verbatim>\<open>podcastShortNameSet\<close>. A \<^verbatim>\<open>return nil, err\<close> inside the loop is the result
  \<open>Inl err\<close>; otherwise the entries come back with \<^verbatim>\<open>Epoch\<close> and
  \<^verbatim>\<open>TitleFilter\<close> assigned.
\<close>

fun podcastsLoop ::
  "(string \<Rightarrow> (error + 're) option) \<Rightarrow> string set \<Rightarrow> 're podcast list
     \<Rightarrow> (error + 're podcast list) option" where
  "podcastsLoop compile seen [] = Some (Inr [])"
| "podcastsLoop compile seen (p # ps) =
     (case (if EpochStr p \<noteq> [] then time_Parse (EpochStr p) else Inr zeroTime) of
        Inl err \<Rightarrow> Some (Inl err)
      | Inr t \<Rightarrow>
         (case compile (foldCaseExpr (TitleFilterStr p)) of
            None \<Rightarrow> None
          | Some (Inl err) \<Rightarrow> Some (Inl err)
          | Some (Inr re) \<Rightarrow>
             (let sn = ShortName p in
              if sn \<in> seen
              then Some (Inl (shortnameError sn))
              else
                (case podcastsLoop compile (insert sn seen) ps of
                   None \<Rightarrow> None
                 | Some (Inl err) \<Rightarrow> Some (Inl err)
                 | Some (Inr ps') \<Rightarrow>
                    Some (Inr (p\<lparr>Epoch := t, TitleFilter := Some re\<rparr> # ps'))))))"

text \<open>
  \<^verbatim>\<open>loadConfig\<close> returns the pair \<^verbatim>\<open>(c *config, err error)\<close>, each nil or not. The
  last \<^verbatim>\<open>return c, err\<close> returns the function's own \<^verbatim>\<open>err\<close>, which
  \<^verbatim>\<open>ReadFile\<close> assigned: the \<^verbatim>\<open>err\<close> of the loop body is a new variable.
\<close>

definition loadConfig :: "'re env \<Rightarrow> string \<Rightarrow> ('re config option \<times> error option) option" where
  "loadConfig env path =
     (let (buf, err) = ReadFile env path in
      if err \<noteq> None then Some (None, err)
      else
        (let (c, uerr) = Unmarshal env buf in
         if uerr \<noteq> None then Some (None, uerr)
         else
           (case Validate c of
              Some verr \<Rightarrow> Some (None, Some verr)
            | None \<Rightarrow>
               if CheckIntervalMinutes c < 1
               then Some (None, Some (ErrorString
                      (''check interval must be >= '' @ Itoa 1 @ '' minutes'')))
               else if YTDLFmtSelector c = []
               then Some (None, Some (ErrorString
                      (''missing '' @ downloadCmdName env @ '' format selector'')))
               else if YTDLWriteExt c = []
               then Some (None, Some (ErrorString
                      (''missing '' @ downloadCmdName env @ '' file type extension'')))
               else if ServeHost c = []
               then Some (None, Some (ErrorString ''missing host to webserve on''))
               else if ServePort c = 0
               then Some (None, Some (ErrorString ''missing fixed port to webserve on''))
               else
                 (let c = c\<lparr>YTDLWriteExt := TrimLeft (YTDLWriteExt c) ''.''\<rparr> in
                  case podcastsLoop (Compile env) {} (Podcasts c) of
                    None \<Rightarrow> None
                  | Some (Inl lerr) \<Rightarrow> Some (None, Some lerr)
                  | Some (Inr ps) \<Rightarrow> Some (Some (c\<lparr>Podcasts := ps\<rparr>), err)))))"

subsection \<open>A fragment of \<^verbatim>\<open>regexp.Compile\<close> and \<^verbatim>\<open>MatchString\<close>\<close>

text \<open>
  A model of Go's regular expressions on a fragment of the syntax: literal ASCII
  characters that are none of the metacharacters \<^verbatim>\<open>\.+*?()|[]{}^$\<close>, the groups
  \<^verbatim>\<open>(?i:\<close> ... \<^verbatim>\<open>)\<close> and \<^verbatim>\<open>(?-i:\<close> ... \<^verbatim>\<open>)\<close>, which set and clear the
  flag \<^verbatim>\<open>FoldCase\<close> inside, and concatenation. On this fragment a compiled expression
  is the sequence of its literal characters, each with the flag in force where it stands.
  Any other construct makes the model answer \<open>Unmodelled\<close>.
\<close>

type_synonym regexp = "(bool \<times> char) list"

datatype parsed = Parsed regexp | BadSyntax | Unmodelled

definition isLiteral :: "char \<Rightarrow> bool" where
  "isLiteral c =
     ((of_char c :: nat) < 128
      \<and> c \<notin> set [CHR 0x5C, CHR ''.'', CHR ''+'', CHR ''*'', CHR ''?'', CHR ''('',
                   CHR '')'', CHR ''|'', CHR ''['', CHR '']'', CHR ''{'', CHR ''}'',
                   CHR ''^'', CHR ''$''])"

text \<open>
  The parser reads the expression from left to right. \<open>foldCase\<close> is the flag in force,
  \<open>stack\<close> holds the flag saved at each open parenthesis (restored at its closing
  parenthesis), \<open>out\<close> the literals read so far, last first. A closing parenthesis
  without an open one and an open one that is never closed are syntax errors.
\<close>

function parse :: "string \<Rightarrow> bool \<Rightarrow> bool list \<Rightarrow> regexp \<Rightarrow> parsed" where
  "parse s foldCase stack out =
     (if s = [] then (if stack = [] then Parsed (rev out) else BadSyntax)
      else if hd s = CHR ''('' then
        (if take 4 s = ''(?i:'' then parse (drop 4 s) True (foldCase # stack) out
         else if take 5 s = ''(?-i:'' then parse (drop 5 s) False (foldCase # stack) out
         else Unmodelled)
      else if hd s = CHR '')'' then
        (case stack of [] \<Rightarrow> BadSyntax | f # st \<Rightarrow> parse (tl s) f st out)
      else if isLiteral (hd s) then parse (tl s) foldCase stack ((foldCase, hd s) # out)
      else Unmodelled)"
  by pat_completeness auto
termination
  by (relation "measure (\<lambda>(s, _, _, _). length s)") auto

declare parse.simps [simp del]

definition regexp_Compile :: "string \<Rightarrow> (error + regexp) option" where
  "regexp_Compile expr =
     (case parse expr False [] [] of
        Parsed re \<Rightarrow> Some (Inr re)
      | BadSyntax \<Rightarrow> Some (Inl (SyntaxError expr))
      | Unmodelled \<Rightarrow> None)"






subsection \<open>The stages of \<^verbatim>\<open>loadConfig\<close>, for the statements below\<close>

text \<open>The document that \<^verbatim>\<open>json.Unmarshal\<close> leaves in \<^verbatim>\<open>c\<close>.\<close>

definition decoded :: "'re env \<Rightarrow> string \<Rightarrow> 're config" where
  "decoded env path = fst (Unmarshal env (fst (ReadFile env path)))"

text \<open>Both \<^verbatim>\<open>ReadFile\<close> and \<^verbatim>\<open>Unmarshal\<close> return a nil error.\<close>

definition readsAndDecodes :: "'re env \<Rightarrow> string \<Rightarrow> bool" where
  "readsAndDecodes env path =
     (snd (ReadFile env path) = None \<and> snd (Unmarshal env (fst (ReadFile env path))) = None)"

text \<open>The five sanity checks that follow \<^verbatim>\<open>Validate\<close> all pass.\<close>

definition sanityChecks :: "'a watcherConfig_scheme \<Rightarrow> bool" where
  "sanityChecks c =
     (1 \<le> CheckIntervalMinutes c \<and> YTDLFmtSelector c \<noteq> [] \<and> YTDLWriteExt c \<noteq> []
      \<and> ServeHost c \<noteq> [] \<and> ServePort c \<noteq> 0)"

text \<open>The epoch that the loop body computes from \<^verbatim>\<open>EpochStr\<close>.\<close>

definition epochOf :: "string \<Rightarrow> error + Time" where
  "epochOf es = (if es \<noteq> [] then time_Parse es else Inr zeroTime)"

text \<open>
  The loop body takes the entry \<open>p\<close> to \<open>p'\<close>: the epoch parses, the wrapped title
  filter compiles, and \<open>p'\<close> is \<open>p\<close> with both results stored.
\<close>

definition normalizes ::
  "(string \<Rightarrow> (error + 're) option) \<Rightarrow> 're podcast \<Rightarrow> 're podcast \<Rightarrow> bool" where
  "normalizes compile p p' =
     (case (epochOf (EpochStr p), compile (foldCaseExpr (TitleFilterStr p))) of
        (Inr t, Some (Inr re)) \<Rightarrow> p' = p\<lparr>Epoch := t, TitleFilter := Some re\<rparr>
      | _ \<Rightarrow> False)"

definition normalizable :: "(string \<Rightarrow> (error + 're) option) \<Rightarrow> 're podcast \<Rightarrow> bool" where
  "normalizable compile p =
     (case (epochOf (EpochStr p), compile (foldCaseExpr (TitleFilterStr p))) of
        (Inr t, Some (Inr re)) \<Rightarrow> True
      | _ \<Rightarrow> False)"

definition compiles :: "(string \<Rightarrow> (error + 're) option) \<Rightarrow> string \<Rightarrow> bool" where
  "compiles compile expr = (case compile expr of Some (Inr re) \<Rightarrow> True | _ \<Rightarrow> False)"


subsection \<open>The specification's words\<close>

text \<open>
  A date in the form \<^verbatim>\<open>YYYY-MM-DD\<close>: ten characters, digits but for the two hyphens, a
  month from 1 to 12 and a day of that month of that year; and the date it denotes.
\<close>

definition dateOf :: "string \<Rightarrow> Time" where
  "dateOf s =
     \<lparr>year = decimal (take 4 s), month = digitVal (s ! 5) * 10 + digitVal (s ! 6),
      day = digitVal (s ! 8) * 10 + digitVal (s ! 9)\<rparr>"

definition wellFormedDate :: "string \<Rightarrow> bool" where
  "wellFormedDate s =
     (length s = 10
      \<and> isDigit s 0 \<and> isDigit s 1 \<and> isDigit s 2 \<and> isDigit s 3 \<and> s ! 4 = CHR ''-''
      \<and> isDigit s 5 \<and> isDigit s 6 \<and> s ! 7 = CHR ''-''
      \<and> isDigit s 8 \<and> isDigit s 9
      \<and> 1 \<le> month (dateOf s) \<and> month (dateOf s) \<le> 12
      \<and> 1 \<le> day (dateOf s) \<and> day (dateOf s) \<le> daysIn (month (dateOf s)) (year (dateOf s)))"

text \<open>
  The documents of the first testable property: the rules of the structural validator
  and of the sanity checks on the decoded document, pairwise distinct short names, title
  filters that compile (in the wrapped form that the code compiles), and epochs that are
  empty or well-formed.
\<close>

definition validDocument :: "(string \<Rightarrow> (error + 're) option) \<Rightarrow> 're config \<Rightarrow> bool" where
  "validDocument compile doc =
     (YTDataAPIKey doc \<noteq> [] \<and> 3 \<le> length (Podcasts doc)
      \<and> 1 \<le> CheckIntervalMinutes doc \<and> YTDLFmtSelector doc \<noteq> [] \<and> YTDLWriteExt doc \<noteq> []
      \<and> ServeHost doc \<noteq> [] \<and> ServePort doc \<noteq> 0
      \<and> distinct (map ShortName (Podcasts doc))
      \<and> list_all (\<lambda>p. compiles compile (foldCaseExpr (TitleFilterStr p))) (Podcasts doc)
      \<and> list_all (\<lambda>p. EpochStr p = [] \<or> wellFormedDate (EpochStr p)) (Podcasts doc))"

text \<open>The invariants of section 3 of the specification, on a loaded configuration.\<close>

definition invariants :: "(string \<Rightarrow> (error + 're) option) \<Rightarrow> 're config \<Rightarrow> bool" where
  "invariants compile c =
     (YTDataAPIKey c \<noteq> [] \<and> 3 \<le> length (Podcasts c)
      \<and> 1 \<le> CheckIntervalMinutes c \<and> YTDLFmtSelector c \<noteq> [] \<and> YTDLWriteExt c \<noteq> []
      \<and> ServeHost c \<noteq> [] \<and> ServePort c \<noteq> 0
      \<and> list_all (\<lambda>p. compiles compile (foldCaseExpr (TitleFilterStr p))) (Podcasts c)
      \<and> list_all (\<lambda>p. EpochStr p = [] \<or> wellFormedDate (EpochStr p)) (Podcasts c)
      \<and> distinct (map ShortName (Podcasts c)))"


subsection \<open>Concrete documents\<close>

text \<open>
  A feed entry as the decoder leaves it (the fields without a JSON key keep their zero
  values), a document around a list of entries, and an environment in which the file is
  read and decodes to a given document.
\<close>

definition feed :: "string \<Rightarrow> string \<Rightarrow> string \<Rightarrow> 're podcast" where
  "feed sn tf es =
     \<lparr>YTChannel = ''channel'', YTChannelID = [], YTChannelReadableName = [],
      Name = ''name'', ShortName = sn, Description = [], TitleFilterStr = tf,
      TitleFilter = None, EpochStr = es, Epoch = zeroTime, Vidya = False,
      CustomImagePath = []\<rparr>"

definition document :: "string \<Rightarrow> 're podcast list \<Rightarrow> 're config" where
  "document ext feeds =
     \<lparr>CheckIntervalMinutes = 60, YTDLFmtSelector = ''bestaudio'', YTDLWriteExt = ext,
      ServeHost = ''host'', ServePort = 8080, ServeDirectoryListings = False,
      YTDataAPIKey = ''key'', Podcasts = feeds\<rparr>"

definition envOf :: "(string \<Rightarrow> (error + 're) option) \<Rightarrow> 're config \<Rightarrow> 're env" where
  "envOf compile doc =
     \<lparr>ReadFile = (\<lambda>path. ([], None)), Unmarshal = (\<lambda>buf. (doc, None)),
      Compile = compile, downloadCmdName = ''youtube-dl''\<rparr>"

text \<open>The environment with the regular expressions of the fragment above.\<close>

definition goEnv :: "regexp config \<Rightarrow> regexp env" where
  "goEnv doc = envOf regexp_Compile doc"

text \<open>
  A total stand-in for a regular expression library: every expression compiles, to
  itself.
\<close>

definition keepSource :: "string \<Rightarrow> (error + string) option" where
  "keepSource expr = Some (Inr expr)"

text \<open>The loaded form of an entry: the epoch and the compiled title filter stored.\<close>

definition loaded :: "'re podcast \<Rightarrow> Time \<Rightarrow> 're \<Rightarrow> 're podcast" where
  "loaded p t re = p\<lparr>Epoch := t, TitleFilter := Some re\<rparr>"

text \<open>The compiled form of a sequence of literal characters, all under one flag.\<close>

definition literals :: "bool \<Rightarrow> string \<Rightarrow> regexp" where
  "literals foldCase s = map (Pair foldCase) s"

definition threeFeeds :: "regexp podcast list" where
  "threeFeeds = [feed ''a'' ''cat'' ''2020-01-15'', feed ''b'' [] [], feed ''c'' ''dog'' []]"

definition threeLoaded :: "regexp podcast list" where
  "threeLoaded =
     [loaded (feed ''a'' ''cat'' ''2020-01-15'') \<lparr>year = 2020, month = 1, day = 15\<rparr>
        (literals True ''cat''),
      loaded (feed ''b'' [] []) zeroTime [],
      loaded (feed ''c'' ''dog'' []) zeroTime (literals True ''dog'')]"

text \<open>Entries with the short names a, b, b, a; the last one has a malformed epoch.\<close>

definition abbaFeeds :: "regexp podcast list" where
  "abbaFeeds = [feed ''a'' [] [], feed ''b'' [] [], feed ''b'' ''x'' [], feed ''a'' [] ''soon'']"



text \<open>Three entries, the last with an empty short name.\<close>

definition anonymousFeeds :: "regexp podcast list" where
  "anonymousFeeds = [feed ''a'' ''cat'' [], feed ''b'' [] ''2020-01-15'', feed [] [] []]"

definition anonymousLoaded :: "regexp podcast list" where
  "anonymousLoaded =
     [loaded (feed ''a'' ''cat'' []) zeroTime (literals True ''cat''),
      loaded (feed ''b'' [] ''2020-01-15'') \<lparr>year = 2020, month = 1, day = 15\<rparr> [],
      loaded (feed [] [] []) zeroTime []]"

text \<open>Three entries, the second with an epoch that lacks a digit.\<close>

definition badEpochFeeds :: "regexp podcast list" where
  "badEpochFeeds = [feed ''a'' [] [], feed ''b'' [] ''2020-1-15'', feed ''c'' [] []]"


text \<open>Three entries for the stand-in library, the first and the last with one short name.\<close>

definition twinFeeds :: "string podcast list" where
  "twinFeeds = [feed ''a'' [] [], feed ''b'' [] [], feed ''a'' [] []]"

text \<open>
  What the loop body leaves in \<^verbatim>\<open>Epoch\<close> of the entry \<open>p'\<close> that it makes of \<open>p\<close>:
  the zero time for an empty \<^verbatim>\<open>EpochStr\<close>, and otherwise the result of
  \<^verbatim>\<open>time.Parse\<close>, which is the date that the well-formed string denotes.
\<close>

definition storesEpoch :: "'re podcast \<Rightarrow> 're podcast \<Rightarrow> bool" where
  "storesEpoch p p' =
     (EpochStr p' = EpochStr p
      \<and> (if EpochStr p = [] then Epoch p' = zeroTime
          else time_Parse (EpochStr p) = Inr (Epoch p')
               \<and> wellFormedDate (EpochStr p) \<and> Epoch p' = dateOf (EpochStr p)))"

text \<open>The epoch that the specification gives an entry.\<close>

definition epochFor :: "'re podcast \<Rightarrow> Time" where
  "epochFor p = (if EpochStr p = [] then zeroTime else dateOf (EpochStr p))"


text \<open>
  Entries with the short names foo, bar, foo, baz; the last one has a malformed epoch.
\<close>

definition fooFeeds :: "regexp podcast list" where
  "fooFeeds = [feed ''foo'' [] [], feed ''bar'' [] [], feed ''foo'' ''x'' [], feed ''baz'' [] ''soon'']"

text \<open>
  The policy of a loaded configuration \<open>c\<close> against the decoded document \<open>doc\<close>: the
  fields are those of the document, but for the extension, which has lost its leading
  dots; the interval, the format selector, the host and the port pass their checks, and
  the extension is empty exactly when the decoded one consists of dots.
\<close>

definition policyOf :: "'re config \<Rightarrow> 're config \<Rightarrow> bool" where
  "policyOf doc c =
     (CheckIntervalMinutes c = CheckIntervalMinutes doc \<and> 1 \<le> CheckIntervalMinutes c
      \<and> YTDLFmtSelector c = YTDLFmtSelector doc \<and> YTDLFmtSelector c \<noteq> []
      \<and> ServeHost c = ServeHost doc \<and> ServeHost c \<noteq> []
      \<and> ServePort c = ServePort doc \<and> ServePort c \<noteq> 0
      \<and> ServeDirectoryListings c = ServeDirectoryListings doc
      \<and> YTDataAPIKey c = YTDataAPIKey doc \<and> YTDataAPIKey c \<noteq> []
      \<and> YTDLWriteExt c = dropWhile (\<lambda>x. x = CHR ''.'') (YTDLWriteExt doc)
      \<and> YTDLWriteExt doc \<noteq> []
      \<and> (YTDLWriteExt c = [] \<longleftrightarrow> set (YTDLWriteExt doc) \<subseteq> {CHR ''.''}))"

section \<open>Properties\<close>

subsection \<open>Decimal rendering\<close>

lemma digit_simps:
  "digit 0 = CHR ''0''" "digit 1 = CHR ''1''" "digit 2 = CHR ''2''" "digit 3 = CHR ''3''"
  "digit 4 = CHR ''4''" "digit 5 = CHR ''5''" "digit 6 = CHR ''6''" "digit 7 = CHR ''7''"
  "digit 8 = CHR ''8''" "digit 9 = CHR ''9''"
  by (simp_all add: digit_def char_of_def bit_iff_odd)

lemma digitVal_digit: "n < 10 \<Longrightarrow> digitVal (digit n) = n"
  by (simp add: digitVal_def digit_def)

lemma decimal_snoc: "decimal (ds @ [c]) = decimal ds * 10 + digitVal c"
  by (simp add: decimal_def)

text \<open>Reading the rendering of a number back gives the number.\<close>

lemma decimal_FormatUint: "decimal (FormatUint n) = n"
proof (induction n rule: FormatUint.induct)
  case (1 n)
  show ?case
  proof (cases "n < 10")
    case True
    then show ?thesis
      by (subst FormatUint.simps) (simp add: decimal_def digitVal_digit)
  next
    case False
    with 1 have "decimal (FormatUint (n div 10)) = n div 10" by simp
    with False show ?thesis
      by (subst FormatUint.simps) (simp add: decimal_snoc digitVal_digit)
  qed
qed

subsection \<open>The date parser\<close>

lemma length_10:
  "length s = 10 \<Longrightarrow> \<exists>a b c d e f g h i j. s = [a, b, c, d, e, f, g, h, i, j]"
  by (auto simp: eval_nat_numeral length_Suc_conv)

lemma time_Parse_length:
  assumes "length s \<noteq> 10"
  shows "time_Parse s = Inl (ParseError s)"
proof (cases "length s < 10")
  case True
  then have "length (drop 8 s) \<le> 1" by simp
  then have "\<not> isDigit (drop 8 s) 1" unfolding isDigit_def by simp
  then show ?thesis
    by (auto simp: time_Parse_def skip_def getnum_def Let_def split: option.splits if_splits)
next
  case False
  with assms have "drop 10 s \<noteq> []" by simp
  then show ?thesis
    by (auto simp: time_Parse_def skip_def getnum_def Let_def split: option.splits if_splits)
qed

lemma time_Parse_10:
  "time_Parse [a, b, c, d, e, f, g, h, i, j] = Inr t \<longleftrightarrow>
     wellFormedDate [a, b, c, d, e, f, g, h, i, j] \<and> t = dateOf [a, b, c, d, e, f, g, h, i, j]"
  by (auto simp: time_Parse_def skip_def getnum_def Let_def wellFormedDate_def dateOf_def
      decimal_def isDigit_def split: option.splits if_splits)

lemma time_Parse_iff:
  "time_Parse s = Inr t \<longleftrightarrow> wellFormedDate s \<and> t = dateOf s"
proof (cases "length s = 10")
  case True
  from length_10 [OF True] obtain a b c d e f g h i j where
    "s = [a, b, c, d, e, f, g, h, i, j]" by blast
  then show ?thesis by (simp only: time_Parse_10)
next
  case False
  then show ?thesis by (simp add: time_Parse_length wellFormedDate_def)
qed

subsection \<open>The loop over the podcasts\<close>

lemma podcastsLoop_Inr:
  "podcastsLoop compile seen ps = Some (Inr ps') \<Longrightarrow>
     list_all2 (normalizes compile) ps ps' \<and> distinct (map ShortName ps)
     \<and> set (map ShortName ps) \<inter> seen = {}"
proof (induction ps arbitrary: seen ps')
  case Nil
  then show ?case by simp
next
  case (Cons p ps)
  from Cons.prems obtain t re qs where
    t: "epochOf (EpochStr p) = Inr t" and
    re: "compile (foldCaseExpr (TitleFilterStr p)) = Some (Inr re)" and
    sn: "ShortName p \<notin> seen" and
    rest: "podcastsLoop compile (insert (ShortName p) seen) ps = Some (Inr qs)" and
    ps': "ps' = p\<lparr>Epoch := t, TitleFilter := Some re\<rparr> # qs"
    by (auto simp: epochOf_def Let_def split: sum.splits option.splits if_splits)
  from Cons.IH [OF rest] have
    ih: "list_all2 (normalizes compile) ps qs" "distinct (map ShortName ps)"
        "set (map ShortName ps) \<inter> insert (ShortName p) seen = {}"
    by auto
  have "normalizes compile p (p\<lparr>Epoch := t, TitleFilter := Some re\<rparr>)"
    by (simp add: normalizes_def t re)
  with ih sn ps' show ?case by auto
qed

lemma podcastsLoop_succeeds:
  "list_all2 (normalizes compile) ps ps' \<Longrightarrow> distinct (map ShortName ps) \<Longrightarrow>
   set (map ShortName ps) \<inter> seen = {} \<Longrightarrow>
   podcastsLoop compile seen ps = Some (Inr ps')"
proof (induction ps arbitrary: seen ps')
  case Nil
  then show ?case by simp
next
  case (Cons p ps)
  from Cons.prems(1) obtain p' qs where
    ps': "ps' = p' # qs" and n: "normalizes compile p p'" and
    r: "list_all2 (normalizes compile) ps qs"
    by (auto simp: list_all2_Cons1)
  from n obtain t re where
    t: "epochOf (EpochStr p) = Inr t" and
    re: "compile (foldCaseExpr (TitleFilterStr p)) = Some (Inr re)" and
    p': "p' = p\<lparr>Epoch := t, TitleFilter := Some re\<rparr>"
    by (auto simp: normalizes_def split: sum.splits option.splits)
  from Cons.prems have "set (map ShortName ps) \<inter> insert (ShortName p) seen = {}"
    by auto
  with Cons.IH [OF r] Cons.prems(2)
  have "podcastsLoop compile (insert (ShortName p) seen) ps = Some (Inr qs)" by simp
  moreover from Cons.prems(3) have "ShortName p \<notin> seen" by auto
  moreover from t have "(if EpochStr p \<noteq> [] then time_Parse (EpochStr p) else Inr zeroTime) = Inr t"
    by (simp add: epochOf_def)
  ultimately show ?case using re ps' p' by (simp add: Let_def)
qed

lemma podcastsLoop_collision:
  "list_all2 (normalizes compile) pre pre' \<Longrightarrow> distinct (map ShortName pre) \<Longrightarrow>
   set (map ShortName pre) \<inter> seen = {} \<Longrightarrow> normalizes compile d d' \<Longrightarrow>
   ShortName d \<in> seen \<union> set (map ShortName pre) \<Longrightarrow>
   podcastsLoop compile seen (pre @ d # rest) = Some (Inl (shortnameError (ShortName d)))"
proof (induction pre arbitrary: seen pre')
  case Nil
  from Nil.prems(4) obtain t re where
    t: "epochOf (EpochStr d) = Inr t" and
    re: "compile (foldCaseExpr (TitleFilterStr d)) = Some (Inr re)"
    by (auto simp: normalizes_def split: sum.splits option.splits)
  from t have "(if EpochStr d \<noteq> [] then time_Parse (EpochStr d) else Inr zeroTime) = Inr t"
    by (simp add: epochOf_def)
  with re Nil.prems(5) show ?case by (simp add: Let_def)
next
  case (Cons p pre)
  from Cons.prems(1) obtain p' qs where
    n: "normalizes compile p p'" and r: "list_all2 (normalizes compile) pre qs"
    by (auto simp: list_all2_Cons1)
  from n obtain t re where
    t: "epochOf (EpochStr p) = Inr t" and
    re: "compile (foldCaseExpr (TitleFilterStr p)) = Some (Inr re)"
    by (auto simp: normalizes_def split: sum.splits option.splits)
  from t have t': "(if EpochStr p \<noteq> [] then time_Parse (EpochStr p) else Inr zeroTime) = Inr t"
    by (simp add: epochOf_def)
  from Cons.prems have a: "set (map ShortName pre) \<inter> insert (ShortName p) seen = {}"
    and b: "distinct (map ShortName pre)" and c: "ShortName p \<notin> seen"
    and e: "ShortName d \<in> insert (ShortName p) seen \<union> set (map ShortName pre)"
    by auto
  from Cons.IH [OF r b a Cons.prems(4) e]
  have "podcastsLoop compile (insert (ShortName p) seen) (pre @ d # rest)
          = Some (Inl (shortnameError (ShortName d)))" .
  with t' re c show ?case by (simp add: Let_def)
qed

lemma podcastsLoop_total:
  "\<forall>s. compile s \<noteq> None \<Longrightarrow> podcastsLoop compile seen ps \<noteq> None"
proof (induction ps arbitrary: seen)
  case Nil
  then show ?case by simp
next
  case (Cons p ps)
  from Cons.prems obtain r where r: "compile (foldCaseExpr (TitleFilterStr p)) = Some r"
    by auto
  from Cons.IH [OF Cons.prems] obtain q where
    q: "podcastsLoop compile (insert (ShortName p) seen) ps = Some q"
    by auto
  show ?case
    by (simp add: r q Let_def split: sum.splits)
qed

subsection \<open>The stages of \<^verbatim>\<open>loadConfig\<close>\<close>

lemma loadConfig_checked:
  assumes "readsAndDecodes env path" "Validate (decoded env path) = None"
    "sanityChecks (decoded env path)"
  shows "loadConfig env path =
     (case podcastsLoop (Compile env) {} (Podcasts (decoded env path)) of
        None \<Rightarrow> None
      | Some (Inl lerr) \<Rightarrow> Some (None, Some lerr)
      | Some (Inr ps) \<Rightarrow>
          Some (Some ((decoded env path)
                  \<lparr>YTDLWriteExt := TrimLeft (YTDLWriteExt (decoded env path)) ''.'',
                   Podcasts := ps\<rparr>), None))"
  using assms
  by (auto simp: loadConfig_def readsAndDecodes_def decoded_def sanityChecks_def Let_def
      split: prod.splits option.splits sum.splits)

lemma loadConfig_Some_config:
  assumes "loadConfig env path = Some (Some c, err)"
  shows "err = None \<and> readsAndDecodes env path \<and> Validate (decoded env path) = None
     \<and> sanityChecks (decoded env path)
     \<and> (\<exists>ps. podcastsLoop (Compile env) {} (Podcasts (decoded env path)) = Some (Inr ps)
           \<and> c = (decoded env path)
                  \<lparr>YTDLWriteExt := TrimLeft (YTDLWriteExt (decoded env path)) ''.'',
                   Podcasts := ps\<rparr>)"
  using assms
  by (auto simp: loadConfig_def readsAndDecodes_def decoded_def sanityChecks_def Let_def
      split: prod.splits option.splits sum.splits if_splits)

lemma loadConfig_shape:
  assumes "loadConfig env path = Some (c, err)"
  shows "(c = None) = (err \<noteq> None)"
proof (cases "snd (ReadFile env path) = None \<and> snd (Unmarshal env (fst (ReadFile env path))) = None")
  case False
  with assms show ?thesis
    by (auto simp: loadConfig_def Let_def split: prod.splits if_splits)
next
  case True
  show ?thesis
  proof (cases "Validate (fst (Unmarshal env (fst (ReadFile env path))))")
    case (Some verr)
    with True have "loadConfig env path = Some (None, Some verr)"
      by (auto simp: loadConfig_def Let_def split: prod.splits)
    with assms have "c = None" "err = Some verr" by simp_all
    then show ?thesis by simp
  next
    case None
    with True assms show ?thesis
      by (auto simp: loadConfig_def Let_def
          split: prod.splits option.splits sum.splits if_splits)
  qed
qed

lemma loadConfig_total:
  assumes "\<forall>s. Compile env s \<noteq> None"
  shows "loadConfig env path \<noteq> None"
proof -
  from podcastsLoop_total [OF assms] obtain r where
    "podcastsLoop (Compile env) {} (Podcasts (decoded env path)) = Some r"
    by blast
  then show ?thesis
    by (auto simp: loadConfig_def decoded_def Let_def
        split: prod.splits option.splits sum.splits if_splits)
qed

subsection \<open>The fragment of regular expressions\<close>








subsection \<open>More on the loop\<close>

lemma podcastsLoop_append:
  "list_all2 (normalizes compile) pre pre' \<Longrightarrow> distinct (map ShortName pre) \<Longrightarrow>
   set (map ShortName pre) \<inter> seen = {} \<Longrightarrow>
   podcastsLoop compile seen (pre @ rest) =
     (case podcastsLoop compile (seen \<union> set (map ShortName pre)) rest of
        None \<Rightarrow> None
      | Some (Inl err) \<Rightarrow> Some (Inl err)
      | Some (Inr qs) \<Rightarrow> Some (Inr (pre' @ qs)))"
proof (induction pre arbitrary: seen pre')
  case Nil
  then show ?case by (simp split: option.splits sum.splits)
next
  case (Cons p pre)
  from Cons.prems(1) obtain p' qs where
    pre': "pre' = p' # qs" and n: "normalizes compile p p'" and
    r: "list_all2 (normalizes compile) pre qs"
    by (auto simp: list_all2_Cons1)
  from n obtain t re where
    t: "epochOf (EpochStr p) = Inr t" and
    re: "compile (foldCaseExpr (TitleFilterStr p)) = Some (Inr re)" and
    p': "p' = p\<lparr>Epoch := t, TitleFilter := Some re\<rparr>"
    by (auto simp: normalizes_def split: sum.splits option.splits)
  from t have t': "(if EpochStr p \<noteq> [] then time_Parse (EpochStr p) else Inr zeroTime) = Inr t"
    by (simp add: epochOf_def)
  from Cons.prems have a: "set (map ShortName pre) \<inter> insert (ShortName p) seen = {}"
    and b: "distinct (map ShortName pre)" and c: "ShortName p \<notin> seen"
    by auto
  have s: "insert (ShortName p) seen \<union> set (map ShortName pre)
             = seen \<union> set (map ShortName (p # pre))"
    by auto
  from Cons.IH [OF r b a]
  have "podcastsLoop compile (insert (ShortName p) seen) (pre @ rest) =
     (case podcastsLoop compile (seen \<union> set (map ShortName (p # pre))) rest of
        None \<Rightarrow> None
      | Some (Inl err) \<Rightarrow> Some (Inl err)
      | Some (Inr qs') \<Rightarrow> Some (Inr (qs @ qs')))"
    by (simp only: s)
  with t' re c pre' p' show ?case
    by (simp add: Let_def split: option.splits sum.splits)
qed

lemma normalizes_normalizable: "normalizes compile p p' \<Longrightarrow> normalizable compile p"
  by (auto simp: normalizes_def normalizable_def split: sum.splits option.splits)

lemma normalizable_normalizes: "normalizable compile p \<Longrightarrow> \<exists>p'. normalizes compile p p'"
  by (auto simp: normalizes_def normalizable_def split: sum.splits option.splits)

lemma list_normalizes_normalizable:
  "list_all2 (normalizes compile) ps ps' \<Longrightarrow> list_all (normalizable compile) ps"
  by (induction rule: list_all2_induct) (simp_all add: normalizes_normalizable)

lemma list_normalizable_normalizes:
  "list_all (normalizable compile) ps \<Longrightarrow> \<exists>ps'. list_all2 (normalizes compile) ps ps'"
proof (induction ps)
  case Nil
  then show ?case by simp
next
  case (Cons p ps)
  then obtain ps' where "list_all2 (normalizes compile) ps ps'" by auto
  moreover from Cons.prems obtain p' where "normalizes compile p p'"
    using normalizable_normalizes [of compile p] by auto
  ultimately have "list_all2 (normalizes compile) (p # ps) (p' # ps')" by simp
  then show ?case by blast
qed

text \<open>The loop body changes two fields only.\<close>

lemma normalizes_fields:
  assumes "normalizes compile p p'"
  shows "ShortName p' = ShortName p" "EpochStr p' = EpochStr p"
    "TitleFilterStr p' = TitleFilterStr p"
    "epochOf (EpochStr p) = Inr (Epoch p')"
    "\<exists>re. TitleFilter p' = Some re \<and> compile (foldCaseExpr (TitleFilterStr p)) = Some (Inr re)"
  using assms
  by (auto simp: normalizes_def split: sum.splits option.splits)

lemma list_normalizes_ShortName:
  "list_all2 (normalizes compile) ps ps' \<Longrightarrow> map ShortName ps' = map ShortName ps"
  by (induction rule: list_all2_induct) (simp_all add: normalizes_fields)

lemma time_Parse_Inl: "time_Parse s = Inl e \<Longrightarrow> e = ParseError s"
  by (auto simp: time_Parse_def Let_def split: option.splits if_splits)

lemma time_Parse_fails:
  assumes "\<not> wellFormedDate s"
  shows "time_Parse s = Inl (ParseError s)"
proof (cases "time_Parse s")
  case (Inl e)
  with time_Parse_Inl [OF Inl] show ?thesis by simp
next
  case (Inr t)
  with assms show ?thesis by (simp add: time_Parse_iff)
qed

subsection \<open>An environment around a document\<close>

lemma envOf_simps:
  "decoded (envOf compile doc) path = doc"
  "readsAndDecodes (envOf compile doc) path"
  "Compile (envOf compile doc) = compile"
  by (simp_all add: decoded_def readsAndDecodes_def envOf_def)

lemma goEnv_simps:
  "decoded (goEnv doc) path = doc"
  "readsAndDecodes (goEnv doc) path"
  "Compile (goEnv doc) = regexp_Compile"
  by (simp_all add: goEnv_def envOf_simps)

subsection \<open>Leading dots\<close>

lemma TrimLeft_dots: "TrimLeft s ''.'' = dropWhile (\<lambda>c. c = CHR ''.'') s"
  by (simp add: TrimLeft_def)

lemma dropWhile_replicate:
  "\<exists>n. s = replicate n x @ dropWhile (\<lambda>c. c = x) s"
proof (induction s)
  case Nil
  then show ?case by simp
next
  case (Cons c s)
  then obtain n where n: "s = replicate n x @ dropWhile (\<lambda>c. c = x) s" by blast
  show ?case
  proof (cases "c = x")
    case True
    with n have "c # s = replicate (Suc n) x @ dropWhile (\<lambda>c. c = x) (c # s)" by simp
    then show ?thesis by blast
  next
    case False
    then have "c # s = replicate 0 x @ dropWhile (\<lambda>c. c = x) (c # s)" by simp
    then show ?thesis by blast
  qed
qed

lemma dropWhile_empty: "dropWhile (\<lambda>c. c = x) s = [] \<longleftrightarrow> set s \<subseteq> {x}"
  by (induction s) auto

subsection \<open>Epochs in the loop\<close>

lemma podcastsLoop_epoch:
  assumes pre: "list_all (normalizable compile) pre" "distinct (map ShortName pre)"
    and d: "EpochStr d \<noteq> []" "\<not> wellFormedDate (EpochStr d)"
  shows "podcastsLoop compile {} (pre @ d # rest) = Some (Inl (ParseError (EpochStr d)))"
proof -
  from list_normalizable_normalizes [OF pre(1)] obtain pre' where
    "list_all2 (normalizes compile) pre pre'" by blast
  from podcastsLoop_append [OF this pre(2), of "{}" "d # rest"]
  have "podcastsLoop compile {} (pre @ d # rest) =
     (case podcastsLoop compile ({} \<union> set (map ShortName pre)) (d # rest) of
        None \<Rightarrow> None
      | Some (Inl err) \<Rightarrow> Some (Inl err)
      | Some (Inr qs) \<Rightarrow> Some (Inr (pre' @ qs)))"
    by simp
  moreover from d have "podcastsLoop compile ({} \<union> set (map ShortName pre)) (d # rest)
      = Some (Inl (ParseError (EpochStr d)))"
    by (simp add: time_Parse_fails)
  ultimately show ?thesis by simp
qed

lemma list_normalizes_epochs:
  "list_all2 (normalizes compile) ps ps' \<Longrightarrow>
   list_all2 (\<lambda>p p'. EpochStr p' = EpochStr p
                \<and> (if EpochStr p = [] then Epoch p' = zeroTime
                    else time_Parse (EpochStr p) = Inr (Epoch p')
                         \<and> wellFormedDate (EpochStr p) \<and> Epoch p' = dateOf (EpochStr p)))
     ps ps'"
proof (induction rule: list_all2_induct)
  case Nil
  then show ?case by simp
next
  case (Cons p ps p' ps')
  from normalizes_fields [OF Cons.hyps(1)] have
    e: "EpochStr p' = EpochStr p" and t: "epochOf (EpochStr p) = Inr (Epoch p')"
    by simp_all
  have "if EpochStr p = [] then Epoch p' = zeroTime
        else time_Parse (EpochStr p) = Inr (Epoch p')
             \<and> wellFormedDate (EpochStr p) \<and> Epoch p' = dateOf (EpochStr p)"
  proof (cases "EpochStr p = []")
    case True
    with t show ?thesis by (simp add: epochOf_def)
  next
    case False
    with t have "time_Parse (EpochStr p) = Inr (Epoch p')" by (simp add: epochOf_def)
    with False show ?thesis by (simp add: time_Parse_iff)
  qed
  with e Cons.IH show ?case by simp
qed

subsection \<open>A load that succeeds\<close>

lemma epochOf_Inr:
  "(\<exists>t. epochOf es = Inr t) \<longleftrightarrow> (es = [] \<or> wellFormedDate es)"
  by (auto simp: epochOf_def time_Parse_iff)

lemma normalizable_iff:
  "normalizable compile p \<longleftrightarrow>
     (EpochStr p = [] \<or> wellFormedDate (EpochStr p))
     \<and> compiles compile (foldCaseExpr (TitleFilterStr p))"
proof (cases "epochOf (EpochStr p)")
  case (Inl e)
  with epochOf_Inr [of "EpochStr p"] show ?thesis
    by (auto simp: normalizable_def)
next
  case (Inr t)
  with epochOf_Inr [of "EpochStr p"] show ?thesis
    by (auto simp: normalizable_def compiles_def split: option.splits sum.splits)
qed

lemma list_normalizable_iff:
  "list_all (normalizable compile) ps \<longleftrightarrow>
     list_all (\<lambda>p. EpochStr p = [] \<or> wellFormedDate (EpochStr p)) ps
     \<and> list_all (\<lambda>p. compiles compile (foldCaseExpr (TitleFilterStr p))) ps"
  by (induction ps) (auto simp: normalizable_iff)

text \<open>When every stage passes, the configuration is returned.\<close>

lemma loadConfig_succeeds:
  assumes "readsAndDecodes env path" "Validate (decoded env path) = None"
    "sanityChecks (decoded env path)"
    and n: "list_all (normalizable (Compile env)) (Podcasts (decoded env path))"
    and d: "distinct (map ShortName (Podcasts (decoded env path)))"
  shows "\<exists>ps. list_all2 (normalizes (Compile env)) (Podcasts (decoded env path)) ps
     \<and> loadConfig env path =
         Some (Some ((decoded env path)
                 \<lparr>YTDLWriteExt := TrimLeft (YTDLWriteExt (decoded env path)) ''.'',
                  Podcasts := ps\<rparr>), None)"
proof -
  from list_normalizable_normalizes [OF n] obtain ps where
    ps: "list_all2 (normalizes (Compile env)) (Podcasts (decoded env path)) ps" by blast
  from podcastsLoop_succeeds [OF ps d, of "{}"]
  have "podcastsLoop (Compile env) {} (Podcasts (decoded env path)) = Some (Inr ps)" by simp
  then have "loadConfig env path =
         Some (Some ((decoded env path)
                 \<lparr>YTDLWriteExt := TrimLeft (YTDLWriteExt (decoded env path)) ''.'',
                  Podcasts := ps\<rparr>), None)"
    by (simp add: loadConfig_checked [OF assms(1-3)])
  with ps show ?thesis by blast
qed

lemma validDocument_checks:
  assumes "validDocument compile doc"
  shows "Validate doc = None" "sanityChecks doc"
  using assms
  by (auto simp: validDocument_def Validate_def Required_def Length_def sanityChecks_def)

lemma list_normalizes_storesEpoch:
  "list_all2 (normalizes compile) ps ps' \<Longrightarrow> list_all2 storesEpoch ps ps'"
  using list_normalizes_epochs [of compile ps ps'] by (simp add: storesEpoch_def [abs_def])

lemma list_storesEpoch_map:
  "list_all2 storesEpoch ps ps' \<Longrightarrow> map Epoch ps' = map epochFor ps"
  by (induction rule: list_all2_induct) (auto simp: storesEpoch_def epochFor_def)

lemma list_normalizes_fields:
  "list_all2 (normalizes compile) ps ps' \<Longrightarrow>
     map EpochStr ps' = map EpochStr ps \<and> map TitleFilterStr ps' = map TitleFilterStr ps"
  by (induction rule: list_all2_induct) (simp_all add: normalizes_fields)

lemma podcastsLoop_first_collision:
  assumes n: "list_all (normalizable compile) (pre @ [d])"
    and dis: "distinct (map ShortName pre)"
    and col: "ShortName d \<in> set (map ShortName pre)"
  shows "podcastsLoop compile {} (pre @ d # rest) = Some (Inl (shortnameError (ShortName d)))"
proof -
  from n have "list_all (normalizable compile) pre" "normalizable compile d" by simp_all
  then obtain pre' d' where
    a: "list_all2 (normalizes compile) pre pre'" and b: "normalizes compile d d'"
    using list_normalizable_normalizes normalizable_normalizes by blast
  from col have c: "ShortName d \<in> {} \<union> set (map ShortName pre)" by simp
  have e: "set (map ShortName pre) \<inter> {} = {}" by simp
  from podcastsLoop_collision [OF a dis e b c] show ?thesis .
qed

subsection \<open>Title filters in the loop\<close>




subsection \<open>Loading the concrete documents\<close>

lemma load_threeFeeds:
  "loadConfig (goEnv (document ''.m4a'' threeFeeds)) ''config.json''
     = Some (Some (document ''m4a'' threeLoaded), None)"
  by code_simp

lemma load_badEpochFeeds_checks:
  "Validate (document ''.m4a'' badEpochFeeds) = None"
  "sanityChecks (document ''.m4a'' badEpochFeeds)"
  "list_all (normalizable regexp_Compile) [feed ''a'' [] []]"
  by code_simp+

lemma valid_threeFeeds: "validDocument regexp_Compile (document ''.m4a'' threeFeeds)"
  by code_simp

lemma load_anonymousFeeds:
  "loadConfig (goEnv (document ''.m4a'' anonymousFeeds)) ''config.json''
     = Some (Some (document ''m4a'' anonymousLoaded), None)"
  by code_simp

lemma valid_anonymousFeeds: "validDocument regexp_Compile (document ''.m4a'' anonymousFeeds)"
  by code_simp

lemma load_dot:
  "loadConfig (goEnv (document ''.'' threeFeeds)) ''config.json''
     = Some (Some (document [] threeLoaded), None)"
  by code_simp

lemma valid_dot: "validDocument regexp_Compile (document ''.'' threeFeeds)"
  by code_simp

lemma load_dots:
  "loadConfig (goEnv (document ''..'' threeFeeds)) ''config.json''
     = Some (Some (document [] threeLoaded), None)"
  by code_simp

lemma load_no_feeds:
  "loadConfig (goEnv (document ''.m4a'' [])) ''config.json''
     = Some (Some (document ''m4a'' []), None)"
  by code_simp

lemma load_checks_abba:
  "Validate (document ''.m4a'' abbaFeeds) = None"
  "sanityChecks (document ''.m4a'' abbaFeeds)"
  "list_all (normalizable regexp_Compile) (take 3 abbaFeeds)"
  by code_simp+

lemma load_abba:
  "loadConfig (goEnv (document ''.m4a'' abbaFeeds)) ''config.json''
     = Some (None, Some (shortnameError ''b''))"
  by code_simp

lemma load_checks_foo:
  "Validate (document ''.m4a'' fooFeeds) = None"
  "sanityChecks (document ''.m4a'' fooFeeds)"
  "list_all (normalizable regexp_Compile) ([feed ''foo'' [] [], feed ''bar'' [] []] @ [feed ''foo'' ''x'' []])"
  by code_simp+






section \<open>The claims of the specification\<close>

subsection \<open>The URL builder\<close>

text \<open>
  Claim C3. For every watcher configuration and every relative path \<open>p\<close>, \<^verbatim>\<open>urlFor\<close>
  returns exactly \<^verbatim>\<open>http://\<close>, the host, the port part, \<^verbatim>\<open>/\<close> and \<open>p\<close>. The port
  part is empty if and only if the port is 80; otherwise it is a colon and the decimal
  rendering of the port: a minus sign for a negative port, then digits that read back as
  the port's absolute value. With the host \<^verbatim>\<open>host\<close> and the port 80 the path
  \<^verbatim>\<open>x.xml\<close> gives \<^verbatim>\<open>http://host/x.xml\<close>, and with the port 8080 it gives
  \<^verbatim>\<open>http://host:8080/x.xml\<close>.
\<close>

theorem urlFor_url:
  "urlFor wc p =
     ''http://'' @ ServeHost wc
       @ (if ServePort wc = 80 then [] else '':'' @ Itoa (ServePort wc)) @ ''/'' @ p
   \<and> ((if ServePort wc = 80 then [] else '':'' @ Itoa (ServePort wc)) = []
        \<longleftrightarrow> ServePort wc = 80)
   \<and> Itoa (ServePort wc)
       = (if ServePort wc < 0 then ''-'' else []) @ FormatUint (nat \<bar>ServePort wc\<bar>)
   \<and> decimal (FormatUint (nat \<bar>ServePort wc\<bar>)) = nat \<bar>ServePort wc\<bar>
   \<and> urlFor (wc\<lparr>ServeHost := ''host'', ServePort := 80\<rparr>) ''x.xml'' = ''http://host/x.xml''
   \<and> urlFor (wc\<lparr>ServeHost := ''host'', ServePort := 8080\<rparr>) ''x.xml''
       = ''http://host:8080/x.xml''"
proof -
  have a: "urlFor wc p =
     ''http://'' @ ServeHost wc
       @ (if ServePort wc = 80 then [] else '':'' @ Itoa (ServePort wc)) @ ''/'' @ p"
    by (simp add: urlFor_def)
  have b: "((if ServePort wc = 80 then [] else '':'' @ Itoa (ServePort wc)) = []
        \<longleftrightarrow> ServePort wc = 80)"
    by simp
  have c: "Itoa (ServePort wc)
       = (if ServePort wc < 0 then ''-'' else []) @ FormatUint (nat \<bar>ServePort wc\<bar>)"
    by (simp add: Itoa_def)
  have d: "decimal (FormatUint (nat \<bar>ServePort wc\<bar>)) = nat \<bar>ServePort wc\<bar>"
    by (rule decimal_FormatUint)
  have i: "Itoa 8080 = ''8080''"
    by (simp add: Itoa_def FormatUint.simps digit_simps)
  have e: "urlFor (wc\<lparr>ServeHost := ''host'', ServePort := 80\<rparr>) ''x.xml'' = ''http://host/x.xml''"
    by (simp add: urlFor_def)
  have f: "urlFor (wc\<lparr>ServeHost := ''host'', ServePort := 8080\<rparr>) ''x.xml''
       = ''http://host:8080/x.xml''"
    by (simp add: urlFor_def i)
  from a b c d e f show ?thesis by (intro conjI)
qed

text \<open>The URL of a feed on the host \<^verbatim>\<open>example.org\<close>, port 443.\<close>

theorem urlFor_url_witness:
  "urlFor \<lparr>CheckIntervalMinutes = 60, YTDLFmtSelector = ''bestaudio'', YTDLWriteExt = ''m4a'',
           ServeHost = ''example.org'', ServePort = 443, ServeDirectoryListings = False\<rparr>
      ''feeds/a.xml'' = ''http://example.org:443/feeds/a.xml''"
proof -
  have "Itoa 443 = ''443''"
    by (simp add: Itoa_def FormatUint.simps digit_simps)
  with urlFor_url [of "\<lparr>CheckIntervalMinutes = 60, YTDLFmtSelector = ''bestaudio'',
      YTDLWriteExt = ''m4a'', ServeHost = ''example.org'', ServePort = 443,
      ServeDirectoryListings = False\<rparr>" "''feeds/a.xml''"]
  show ?thesis by simp
qed

subsection \<open>The file extension\<close>

text \<open>
  Claim C7. After a successful load the file extension is the decoded
  \<^verbatim>\<open>ytdl_write_ext\<close> without its leading dots: the decoded value is a run of dots
  followed by the result, which is empty or starts with another character, so that
  nothing but leading dots is removed. The decoded value \<^verbatim>\<open>.m4a\<close> gives
  \<^verbatim>\<open>m4a\<close>.
\<close>

theorem loadConfig_extension:
  assumes "loadConfig env path = Some (Some c, err)"
  shows "YTDLWriteExt c = dropWhile (\<lambda>x. x = CHR ''.'') (YTDLWriteExt (decoded env path))
     \<and> (\<exists>n. YTDLWriteExt (decoded env path) = replicate n (CHR ''.'') @ YTDLWriteExt c)
     \<and> (YTDLWriteExt c = [] \<or> hd (YTDLWriteExt c) \<noteq> CHR ''.'')
     \<and> (YTDLWriteExt (decoded env path) = ''.m4a'' \<longrightarrow> YTDLWriteExt c = ''m4a'')"
proof -
  from loadConfig_Some_config [OF assms] obtain ps where
    "c = (decoded env path)
           \<lparr>YTDLWriteExt := TrimLeft (YTDLWriteExt (decoded env path)) ''.'', Podcasts := ps\<rparr>"
    by blast
  then have a: "YTDLWriteExt c = dropWhile (\<lambda>x. x = CHR ''.'') (YTDLWriteExt (decoded env path))"
    by (simp add: TrimLeft_dots)
  from dropWhile_replicate [of "YTDLWriteExt (decoded env path)" "CHR ''.''"]
  have b: "\<exists>n. YTDLWriteExt (decoded env path) = replicate n (CHR ''.'') @ YTDLWriteExt c"
    by (simp only: a)
  have c: "YTDLWriteExt c = [] \<or> hd (YTDLWriteExt c) \<noteq> CHR ''.''"
    unfolding a using hd_dropWhile [of "\<lambda>x. x = CHR ''.''" "YTDLWriteExt (decoded env path)"]
    by blast
  have d: "YTDLWriteExt (decoded env path) = ''.m4a'' \<longrightarrow> YTDLWriteExt c = ''m4a''"
    by (simp add: a)
  from a b c d show ?thesis by (intro conjI)
qed

text \<open>The document with three feeds and the extension \<^verbatim>\<open>.m4a\<close> loads.\<close>

theorem loadConfig_extension_witness:
  "loadConfig (goEnv (document ''.m4a'' threeFeeds)) ''config.json''
     = Some (Some (document ''m4a'' threeLoaded), None)
   \<and> YTDLWriteExt (decoded (goEnv (document ''.m4a'' threeFeeds)) ''config.json'') = ''.m4a''
   \<and> YTDLWriteExt (document ''m4a'' threeLoaded) = ''m4a''"
proof -
  have "YTDLWriteExt (decoded (goEnv (document ''.m4a'' threeFeeds)) ''config.json'') = ''.m4a''"
    by (simp add: goEnv_simps document_def)
  with loadConfig_extension [OF load_threeFeeds] load_threeFeeds show ?thesis by simp
qed

subsection \<open>Failures\<close>

text \<open>
  Claim C8. Whatever \<^verbatim>\<open>loadConfig\<close> returns, the configuration is nil exactly when
  the error is not, so an error never comes with a configuration. Every stage that fails
  returns nil and its error: reading the file, decoding it, \<^verbatim>\<open>Validate\<close>, a sanity
  check, and the loop over the podcasts (an epoch that does not parse, a title filter
  that does not compile, a short name seen before). With a regular expression library
  that answers on every expression, \<^verbatim>\<open>loadConfig\<close> always returns, and it returns nil
  and an error whenever some entry cannot be normalized or two entries share a short
  name.
\<close>

theorem loadConfig_failure:
  "(\<forall>c err. loadConfig env path = Some (c, err) \<longrightarrow> (c = None) = (err \<noteq> None))
   \<and> (snd (ReadFile env path) \<noteq> None \<longrightarrow>
        loadConfig env path = Some (None, snd (ReadFile env path)))
   \<and> (snd (ReadFile env path) = None \<and> snd (Unmarshal env (fst (ReadFile env path))) \<noteq> None \<longrightarrow>
        loadConfig env path = Some (None, snd (Unmarshal env (fst (ReadFile env path)))))
   \<and> (readsAndDecodes env path \<and> Validate (decoded env path) \<noteq> None \<longrightarrow>
        loadConfig env path = Some (None, Validate (decoded env path)))
   \<and> (readsAndDecodes env path \<and> Validate (decoded env path) = None
        \<and> \<not> sanityChecks (decoded env path) \<longrightarrow>
        (\<exists>msg. loadConfig env path = Some (None, Some (ErrorString msg))))
   \<and> (readsAndDecodes env path \<and> Validate (decoded env path) = None
        \<and> sanityChecks (decoded env path) \<longrightarrow>
        (\<forall>lerr. podcastsLoop (Compile env) {} (Podcasts (decoded env path)) = Some (Inl lerr) \<longrightarrow>
           loadConfig env path = Some (None, Some lerr)))
   \<and> ((\<forall>s. Compile env s \<noteq> None) \<longrightarrow>
        (\<exists>c err. loadConfig env path = Some (c, err))
        \<and> (\<not> (list_all (normalizable (Compile env)) (Podcasts (decoded env path))
                \<and> distinct (map ShortName (Podcasts (decoded env path)))) \<longrightarrow>
             (\<exists>err. loadConfig env path = Some (None, Some err))))"
proof -
  have a: "\<forall>c err. loadConfig env path = Some (c, err) \<longrightarrow> (c = None) = (err \<noteq> None)"
    using loadConfig_shape by blast
  have b: "snd (ReadFile env path) \<noteq> None \<longrightarrow>
        loadConfig env path = Some (None, snd (ReadFile env path))"
    by (auto simp: loadConfig_def split: prod.splits)
  have c: "snd (ReadFile env path) = None \<and> snd (Unmarshal env (fst (ReadFile env path))) \<noteq> None \<longrightarrow>
        loadConfig env path = Some (None, snd (Unmarshal env (fst (ReadFile env path))))"
    by (auto simp: loadConfig_def split: prod.splits)
  have d: "readsAndDecodes env path \<and> Validate (decoded env path) \<noteq> None \<longrightarrow>
        loadConfig env path = Some (None, Validate (decoded env path))"
    by (auto simp: loadConfig_def readsAndDecodes_def decoded_def split: prod.splits)
  have e: "readsAndDecodes env path \<and> Validate (decoded env path) = None
        \<and> \<not> sanityChecks (decoded env path) \<longrightarrow>
        (\<exists>msg. loadConfig env path = Some (None, Some (ErrorString msg)))"
    by (auto simp: loadConfig_def readsAndDecodes_def decoded_def sanityChecks_def
        split: prod.splits)
  have f: "readsAndDecodes env path \<and> Validate (decoded env path) = None
        \<and> sanityChecks (decoded env path) \<longrightarrow>
        (\<forall>lerr. podcastsLoop (Compile env) {} (Podcasts (decoded env path)) = Some (Inl lerr) \<longrightarrow>
           loadConfig env path = Some (None, Some lerr))"
    by (simp add: loadConfig_checked)
  have g: "(\<forall>s. Compile env s \<noteq> None) \<longrightarrow>
        (\<exists>c err. loadConfig env path = Some (c, err))
        \<and> (\<not> (list_all (normalizable (Compile env)) (Podcasts (decoded env path))
                \<and> distinct (map ShortName (Podcasts (decoded env path)))) \<longrightarrow>
             (\<exists>err. loadConfig env path = Some (None, Some err)))"
  proof (intro impI conjI)
    assume total: "\<forall>s. Compile env s \<noteq> None"
    from loadConfig_total [OF total, of path]
    show r: "\<exists>c err. loadConfig env path = Some (c, err)" by auto
    assume bad: "\<not> (list_all (normalizable (Compile env)) (Podcasts (decoded env path))
                \<and> distinct (map ShortName (Podcasts (decoded env path))))"
    from r obtain c err where l: "loadConfig env path = Some (c, err)" by blast
    have "c = None"
    proof (cases c)
      case None
      then show ?thesis .
    next
      case (Some c')
      with l have "loadConfig env path = Some (Some c', err)" by simp
      from loadConfig_Some_config [OF this] obtain ps where
        "podcastsLoop (Compile env) {} (Podcasts (decoded env path)) = Some (Inr ps)"
        by blast
      from podcastsLoop_Inr [OF this] have
        "list_all2 (normalizes (Compile env)) (Podcasts (decoded env path)) ps"
        "distinct (map ShortName (Podcasts (decoded env path)))"
        by simp_all
      with bad list_normalizes_normalizable show ?thesis by blast
    qed
    moreover from loadConfig_shape [OF l] have "(c = None) = (err \<noteq> None)" .
    ultimately obtain e where "c = None" "err = Some e" by auto
    with l show "\<exists>err. loadConfig env path = Some (None, Some err)" by blast
  qed
  from a b c d e f g show ?thesis by (intro conjI)
qed

text \<open>
  Three entries, two of them with the short name \<^verbatim>\<open>a\<close>, and the library that
  compiles everything: the load returns nil and an error.
\<close>

theorem loadConfig_failure_witness:
  "(\<exists>err. loadConfig (envOf keepSource (document ''.m4a'' twinFeeds)) ''config.json''
            = Some (None, Some err))
   \<and> \<not> distinct (map ShortName twinFeeds)"
proof -
  have t: "\<forall>s. Compile (envOf keepSource (document ''.m4a'' twinFeeds)) s \<noteq> None"
    by (simp add: envOf_simps keepSource_def)
  have d: "\<not> distinct (map ShortName twinFeeds)"
    by (simp add: twinFeeds_def feed_def)
  then have "\<not> (list_all (normalizable (Compile (envOf keepSource (document ''.m4a'' twinFeeds))))
                 (Podcasts (decoded (envOf keepSource (document ''.m4a'' twinFeeds)) ''config.json''))
              \<and> distinct (map ShortName
                   (Podcasts (decoded (envOf keepSource (document ''.m4a'' twinFeeds)) ''config.json''))))"
    by (simp add: envOf_simps document_def)
  with loadConfig_failure [of "envOf keepSource (document ''.m4a'' twinFeeds)" "''config.json''"]
    t d show ?thesis by blast
qed

subsection \<open>Epochs\<close>

text \<open>
  Claim C6. When the file is read and decoded, the checks before the loop pass, every
  \<^verbatim>\<open>EpochStr\<close> is empty or a well-formed date \<^verbatim>\<open>YYYY-MM-DD\<close>, every wrapped title
  filter compiles and the short names are distinct, \<^verbatim>\<open>loadConfig\<close> returns a
  configuration and a nil error, and in it every entry keeps its \<^verbatim>\<open>EpochStr\<close> and
  has the \<^verbatim>\<open>Epoch\<close> set: the zero time where \<^verbatim>\<open>EpochStr\<close> is empty, and otherwise
  what \<^verbatim>\<open>time.Parse\<close> returns for it under the layout \<^verbatim>\<open>2006-01-02\<close>, the date
  that the string denotes. Every configuration that \<^verbatim>\<open>loadConfig\<close> returns has its
  epochs set so. When the checks before the loop pass and the entries before an entry
  \<open>d\<close> are normalized without a collision, a non-empty \<^verbatim>\<open>EpochStr\<close> of \<open>d\<close> that
  is not a well-formed date makes \<^verbatim>\<open>loadConfig\<close> return nil and the parse error for
  that string. No document with such an entry ever loads. The string
  \<^verbatim>\<open>2020-01-15\<close> parses to January 15 of 2020.
\<close>

theorem loadConfig_epoch:
  "(readsAndDecodes env path \<and> Validate (decoded env path) = None
      \<and> sanityChecks (decoded env path)
      \<and> list_all (\<lambda>p. EpochStr p = [] \<or> wellFormedDate (EpochStr p))
           (Podcasts (decoded env path))
      \<and> list_all (\<lambda>p. compiles (Compile env) (foldCaseExpr (TitleFilterStr p)))
           (Podcasts (decoded env path))
      \<and> distinct (map ShortName (Podcasts (decoded env path))) \<longrightarrow>
      (\<exists>c. loadConfig env path = Some (Some c, None)
           \<and> list_all2 storesEpoch (Podcasts (decoded env path)) (Podcasts c)
           \<and> map Epoch (Podcasts c) = map epochFor (Podcasts (decoded env path))))
   \<and> (\<forall>c err. loadConfig env path = Some (Some c, err) \<longrightarrow>
         list_all2 storesEpoch (Podcasts (decoded env path)) (Podcasts c)
         \<and> map Epoch (Podcasts c) = map epochFor (Podcasts (decoded env path)))
   \<and> (\<forall>pre d rest.
         readsAndDecodes env path \<and> Validate (decoded env path) = None
         \<and> sanityChecks (decoded env path) \<and> Podcasts (decoded env path) = pre @ d # rest
         \<and> list_all (normalizable (Compile env)) pre \<and> distinct (map ShortName pre)
         \<and> EpochStr d \<noteq> [] \<and> \<not> wellFormedDate (EpochStr d) \<longrightarrow>
         loadConfig env path = Some (None, Some (ParseError (EpochStr d))))
   \<and> (list_ex (\<lambda>p. EpochStr p \<noteq> [] \<and> \<not> wellFormedDate (EpochStr p))
         (Podcasts (decoded env path)) \<longrightarrow>
       (\<forall>c err. loadConfig env path \<noteq> Some (Some c, err)))
   \<and> time_Parse ''2020-01-15'' = Inr \<lparr>year = 2020, month = 1, day = 15\<rparr>"
proof -
  have a: "\<forall>c err. loadConfig env path = Some (Some c, err) \<longrightarrow>
         list_all2 storesEpoch (Podcasts (decoded env path)) (Podcasts c)
         \<and> map Epoch (Podcasts c) = map epochFor (Podcasts (decoded env path))"
  proof (intro allI impI)
    fix c err
    assume "loadConfig env path = Some (Some c, err)"
    from loadConfig_Some_config [OF this] obtain ps where
      l: "podcastsLoop (Compile env) {} (Podcasts (decoded env path)) = Some (Inr ps)" and
      c: "c = (decoded env path)
             \<lparr>YTDLWriteExt := TrimLeft (YTDLWriteExt (decoded env path)) ''.'', Podcasts := ps\<rparr>"
      by blast
    from podcastsLoop_Inr [OF l] have
      "list_all2 (normalizes (Compile env)) (Podcasts (decoded env path)) ps" by simp
    from list_normalizes_storesEpoch [OF this]
    have s: "list_all2 storesEpoch (Podcasts (decoded env path)) ps" .
    from list_storesEpoch_map [OF s] s c
    show "list_all2 storesEpoch (Podcasts (decoded env path)) (Podcasts c)
         \<and> map Epoch (Podcasts c) = map epochFor (Podcasts (decoded env path))"
      by simp
  qed
  have p: "readsAndDecodes env path \<and> Validate (decoded env path) = None
      \<and> sanityChecks (decoded env path)
      \<and> list_all (\<lambda>p. EpochStr p = [] \<or> wellFormedDate (EpochStr p))
           (Podcasts (decoded env path))
      \<and> list_all (\<lambda>p. compiles (Compile env) (foldCaseExpr (TitleFilterStr p)))
           (Podcasts (decoded env path))
      \<and> distinct (map ShortName (Podcasts (decoded env path))) \<longrightarrow>
      (\<exists>c. loadConfig env path = Some (Some c, None)
           \<and> list_all2 storesEpoch (Podcasts (decoded env path)) (Podcasts c)
           \<and> map Epoch (Podcasts c) = map epochFor (Podcasts (decoded env path)))"
  proof (intro impI, elim conjE)
    assume s: "readsAndDecodes env path" "Validate (decoded env path) = None"
      "sanityChecks (decoded env path)"
      and e: "list_all (\<lambda>p. EpochStr p = [] \<or> wellFormedDate (EpochStr p))
           (Podcasts (decoded env path))"
      and f: "list_all (\<lambda>p. compiles (Compile env) (foldCaseExpr (TitleFilterStr p)))
           (Podcasts (decoded env path))"
      and d: "distinct (map ShortName (Podcasts (decoded env path)))"
    from e f have "list_all (normalizable (Compile env)) (Podcasts (decoded env path))"
      by (simp add: list_normalizable_iff)
    from loadConfig_succeeds [OF s this d] obtain c where
      c: "loadConfig env path = Some (Some c, None)" by blast
    with a show "\<exists>c. loadConfig env path = Some (Some c, None)
           \<and> list_all2 storesEpoch (Podcasts (decoded env path)) (Podcasts c)
           \<and> map Epoch (Podcasts c) = map epochFor (Podcasts (decoded env path))"
      by blast
  qed
  have b: "\<forall>pre d rest.
         readsAndDecodes env path \<and> Validate (decoded env path) = None
         \<and> sanityChecks (decoded env path) \<and> Podcasts (decoded env path) = pre @ d # rest
         \<and> list_all (normalizable (Compile env)) pre \<and> distinct (map ShortName pre)
         \<and> EpochStr d \<noteq> [] \<and> \<not> wellFormedDate (EpochStr d) \<longrightarrow>
         loadConfig env path = Some (None, Some (ParseError (EpochStr d)))"
  proof (intro allI impI, elim conjE)
    fix pre d rest
    assume s: "readsAndDecodes env path" "Validate (decoded env path) = None"
      "sanityChecks (decoded env path)"
      and q: "Podcasts (decoded env path) = pre @ d # rest"
      and n: "list_all (normalizable (Compile env)) pre" "distinct (map ShortName pre)"
      and d: "EpochStr d \<noteq> []" "\<not> wellFormedDate (EpochStr d)"
    from podcastsLoop_epoch [OF n d, of rest] q
    have "podcastsLoop (Compile env) {} (Podcasts (decoded env path))
            = Some (Inl (ParseError (EpochStr d)))"
      by simp
    then show "loadConfig env path = Some (None, Some (ParseError (EpochStr d)))"
      by (simp add: loadConfig_checked [OF s])
  qed
  have c: "list_ex (\<lambda>p. EpochStr p \<noteq> [] \<and> \<not> wellFormedDate (EpochStr p))
         (Podcasts (decoded env path)) \<longrightarrow>
       (\<forall>c err. loadConfig env path \<noteq> Some (Some c, err))"
  proof (intro allI impI notI)
    fix c err
    assume bad: "list_ex (\<lambda>p. EpochStr p \<noteq> [] \<and> \<not> wellFormedDate (EpochStr p))
         (Podcasts (decoded env path))"
    assume "loadConfig env path = Some (Some c, err)"
    with a have "list_all2 storesEpoch (Podcasts (decoded env path)) (Podcasts c)"
      by blast
    then have "\<forall>p \<in> set (Podcasts (decoded env path)).
                 EpochStr p = [] \<or> wellFormedDate (EpochStr p)"
      by (induction rule: list_all2_induct) (auto simp: storesEpoch_def split: if_splits)
    with bad show False by (auto simp: list_ex_iff)
  qed
  have d: "time_Parse ''2020-01-15'' = Inr \<lparr>year = 2020, month = 1, day = 15\<rparr>"
    by code_simp
  from p a b c d show ?thesis by (intro conjI)
qed

text \<open>
  The document with three feeds loads, with the epochs January 15 of 2020 and twice the
  zero time; the document whose second entry has the epoch \<^verbatim>\<open>2020-1-15\<close> is refused
  with the parse error.
\<close>

theorem loadConfig_epoch_witness:
  "loadConfig (goEnv (document ''.m4a'' threeFeeds)) ''config.json''
     = Some (Some (document ''m4a'' threeLoaded), None)
   \<and> map EpochStr (Podcasts (document ''m4a'' threeLoaded)) = [''2020-01-15'', [], []]
   \<and> map Epoch (Podcasts (document ''m4a'' threeLoaded))
       = [\<lparr>year = 2020, month = 1, day = 15\<rparr>, zeroTime, zeroTime]
   \<and> list_all2 storesEpoch threeFeeds (Podcasts (document ''m4a'' threeLoaded))
   \<and> loadConfig (goEnv (document ''.m4a'' badEpochFeeds)) ''config.json''
       = Some (None, Some (ParseError ''2020-1-15''))"
proof -
  let ?env = "goEnv (document ''.m4a'' threeFeeds)"
  have v: "readsAndDecodes ?env ''config.json''"
    "Validate (decoded ?env ''config.json'') = None"
    "sanityChecks (decoded ?env ''config.json'')"
    using validDocument_checks [OF valid_threeFeeds] by (simp_all add: goEnv_simps)
  have w: "list_all (\<lambda>p. EpochStr p = [] \<or> wellFormedDate (EpochStr p))
             (Podcasts (decoded ?env ''config.json''))"
    "list_all (\<lambda>p. compiles (Compile ?env) (foldCaseExpr (TitleFilterStr p)))
             (Podcasts (decoded ?env ''config.json''))"
    "distinct (map ShortName (Podcasts (decoded ?env ''config.json'')))"
    using valid_threeFeeds by (simp_all add: goEnv_simps validDocument_def)
  have p: "Podcasts (decoded ?env ''config.json'') = threeFeeds"
    by (simp add: goEnv_simps document_def)
  from loadConfig_epoch [of ?env "''config.json''"] v w
  obtain c where c: "loadConfig ?env ''config.json'' = Some (Some c, None)"
    and s: "list_all2 storesEpoch (Podcasts (decoded ?env ''config.json'')) (Podcasts c)"
    and m: "map Epoch (Podcasts c) = map epochFor (Podcasts (decoded ?env ''config.json''))"
    by blast
  from c load_threeFeeds have c': "c = document ''m4a'' threeLoaded" by simp
  have f: "map epochFor threeFeeds = [\<lparr>year = 2020, month = 1, day = 15\<rparr>, zeroTime, zeroTime]"
    by code_simp
  from m have a2: "map Epoch (Podcasts (document ''m4a'' threeLoaded))
       = [\<lparr>year = 2020, month = 1, day = 15\<rparr>, zeroTime, zeroTime]"
    by (simp only: c' p f)
  from s have a3: "list_all2 storesEpoch threeFeeds (Podcasts (document ''m4a'' threeLoaded))"
    by (simp only: c' p)
  have a1: "map EpochStr (Podcasts (document ''m4a'' threeLoaded)) = [''2020-01-15'', [], []]"
    by (simp add: document_def threeLoaded_def loaded_def feed_def)
  have nw: "\<not> wellFormedDate ''2020-1-15''"
    by (simp add: wellFormedDate_def)
  have q: "Podcasts (decoded (goEnv (document ''.m4a'' badEpochFeeds)) ''config.json'')
            = [feed ''a'' [] []] @ feed ''b'' [] ''2020-1-15'' # [feed ''c'' [] []]"
    by (simp add: goEnv_simps document_def badEpochFeeds_def)
  have e: "EpochStr (feed ''b'' [] ''2020-1-15'' :: regexp podcast) = ''2020-1-15''"
    by (simp add: feed_def)
  from loadConfig_epoch [of "goEnv (document ''.m4a'' badEpochFeeds)" "''config.json''"]
  have "readsAndDecodes (goEnv (document ''.m4a'' badEpochFeeds)) ''config.json''
         \<and> Validate (decoded (goEnv (document ''.m4a'' badEpochFeeds)) ''config.json'') = None
         \<and> sanityChecks (decoded (goEnv (document ''.m4a'' badEpochFeeds)) ''config.json'')
         \<and> Podcasts (decoded (goEnv (document ''.m4a'' badEpochFeeds)) ''config.json'')
             = [feed ''a'' [] []] @ feed ''b'' [] ''2020-1-15'' # [feed ''c'' [] []]
         \<and> list_all (normalizable (Compile (goEnv (document ''.m4a'' badEpochFeeds))))
             [feed ''a'' [] []]
         \<and> distinct (map ShortName [feed ''a'' [] [] :: regexp podcast])
         \<and> EpochStr (feed ''b'' [] ''2020-1-15'' :: regexp podcast) \<noteq> []
         \<and> \<not> wellFormedDate (EpochStr (feed ''b'' [] ''2020-1-15'' :: regexp podcast)) \<longrightarrow>
         loadConfig (goEnv (document ''.m4a'' badEpochFeeds)) ''config.json''
           = Some (None, Some (ParseError (EpochStr (feed ''b'' [] ''2020-1-15'' :: regexp podcast))))"
    by blast
  moreover note q
  ultimately have a4: "loadConfig (goEnv (document ''.m4a'' badEpochFeeds)) ''config.json''
       = Some (None, Some (ParseError ''2020-1-15''))"
    using nw load_badEpochFeeds_checks
    by (simp add: goEnv_simps e)
  from load_threeFeeds a1 a2 a3 a4 show ?thesis by (intro conjI)
qed

subsection \<open>An empty short name\<close>

text \<open>
  Claim C10. \<^verbatim>\<open>loadConfig\<close> does not reject an empty short name. The document with
  the three feeds \<^verbatim>\<open>a\<close>, \<^verbatim>\<open>b\<close> and one with the empty short name satisfies every
  rule (a key, three feeds, the sanity checks, title filters that compile, epochs that
  are empty or well-formed, distinct short names); it loads, and the configuration
  returned contains the feed whose short name is the empty string.
\<close>

theorem loadConfig_empty_shortname:
  "validDocument regexp_Compile (document ''.m4a'' anonymousFeeds)
   \<and> map ShortName anonymousFeeds = [''a'', ''b'', []]
   \<and> loadConfig (goEnv (document ''.m4a'' anonymousFeeds)) ''config.json''
       = Some (Some (document ''m4a'' anonymousLoaded), None)
   \<and> map ShortName (Podcasts (document ''m4a'' anonymousLoaded)) = [''a'', ''b'', []]"
proof -
  have a: "map ShortName anonymousFeeds = [''a'', ''b'', []]"
    by (simp add: anonymousFeeds_def feed_def)
  have b: "map ShortName (Podcasts (document ''m4a'' anonymousLoaded)) = [''a'', ''b'', []]"
    by (simp add: document_def anonymousLoaded_def loaded_def feed_def)
  from valid_anonymousFeeds a load_anonymousFeeds b show ?thesis by (intro conjI)
qed

subsection \<open>An extension of dots\<close>

text \<open>
  Claim C1 says that a valid document loads to a configuration on which every invariant
  holds. The document with three feeds and the extension \<^verbatim>\<open>.\<close> is valid (its
  extension is not empty) and is read and decoded; \<^verbatim>\<open>loadConfig\<close> returns a
  configuration and a nil error for it, but the extension of that configuration is the
  empty string, so the invariants do not hold on it: the extension is tested for
  emptiness before \<^verbatim>\<open>TrimLeft\<close> removes the dot, and not after.
\<close>

theorem loadConfig_dot_extension:
  "validDocument regexp_Compile (document ''.'' threeFeeds)
   \<and> readsAndDecodes (goEnv (document ''.'' threeFeeds)) ''config.json''
   \<and> decoded (goEnv (document ''.'' threeFeeds)) ''config.json'' = document ''.'' threeFeeds
   \<and> loadConfig (goEnv (document ''.'' threeFeeds)) ''config.json''
       = Some (Some (document [] threeLoaded), None)
   \<and> YTDLWriteExt (document [] threeLoaded) = []
   \<and> \<not> invariants regexp_Compile (document [] threeLoaded)"
proof -
  have a: "YTDLWriteExt (document [] threeLoaded) = []"
    by (simp add: document_def)
  then have b: "\<not> invariants regexp_Compile (document [] threeLoaded)"
    by (simp add: invariants_def)
  from valid_dot goEnv_simps(2) goEnv_simps(1) load_dot a b show ?thesis by (intro conjI)
qed

text \<open>
  Claim C2 says that the extension of a loaded configuration is not empty. The document
  with the extension \<^verbatim>\<open>..\<close> passes the five sanity checks and loads; the extension
  of the configuration returned is the empty string, which the third sanity check would
  refuse.
\<close>

theorem loadConfig_dots_extension:
  "sanityChecks (decoded (goEnv (document ''..'' threeFeeds)) ''config.json'')
   \<and> loadConfig (goEnv (document ''..'' threeFeeds)) ''config.json''
       = Some (Some (document [] threeLoaded), None)
   \<and> YTDLWriteExt (document [] threeLoaded) = []
   \<and> \<not> sanityChecks (document [] threeLoaded)"
proof -
  have a: "sanityChecks (decoded (goEnv (document ''..'' threeFeeds)) ''config.json'')"
    by (simp add: goEnv_simps sanityChecks_def document_def)
  have b: "YTDLWriteExt (document [] threeLoaded) = []"
    by (simp add: document_def)
  then have c: "\<not> sanityChecks (document [] threeLoaded)"
    by (simp add: sanityChecks_def)
  from a load_dots b c show ?thesis by (intro conjI)
qed

subsection \<open>No feeds at all\<close>

text \<open>
  Claim C9 says that a document with fewer than three feeds and a key fails in
  \<^verbatim>\<open>Validate\<close>. The document with a key and an empty list of feeds has fewer than
  three feeds, yet \<^verbatim>\<open>Validate\<close> returns nil for it, because the rule
  \<^verbatim>\<open>Length(3, 0)\<close> holds an empty value valid and the field has no \<^verbatim>\<open>Required\<close>
  rule; \<^verbatim>\<open>loadConfig\<close> returns a configuration without feeds and a nil error.
\<close>

theorem loadConfig_no_feeds:
  "YTDataAPIKey (document ''.m4a'' ([] :: regexp podcast list)) \<noteq> []
   \<and> length (Podcasts (document ''.m4a'' ([] :: regexp podcast list))) < 3
   \<and> decoded (goEnv (document ''.m4a'' [])) ''config.json'' = document ''.m4a'' []
   \<and> Validate (document ''.m4a'' ([] :: regexp podcast list)) = None
   \<and> loadConfig (goEnv (document ''.m4a'' [])) ''config.json''
       = Some (Some (document ''m4a'' []), None)"
proof -
  have a: "YTDataAPIKey (document ''.m4a'' ([] :: regexp podcast list)) \<noteq> []"
    "length (Podcasts (document ''.m4a'' ([] :: regexp podcast list))) < 3"
    by (simp_all add: document_def)
  have b: "Validate (document ''.m4a'' ([] :: regexp podcast list)) = None"
    by (simp add: Validate_def Required_def Length_def document_def)
  from a goEnv_simps(1) b load_no_feeds show ?thesis by (intro conjI)
qed

subsection \<open>Short names\<close>

text \<open>
  Claim C4, as it is worded, lets \<open>s\<close> be any short name that two entries share and
  has the error carry \<open>s\<close>. In the document with the short names \<^verbatim>\<open>a\<close>, \<^verbatim>\<open>b\<close>,
  \<^verbatim>\<open>b\<close>, \<^verbatim>\<open>a\<close> the first and the last entry share \<^verbatim>\<open>a\<close>, the checks pass, and
  the entries up to and including the first colliding entry (the third) are
  normalized; the error that \<^verbatim>\<open>loadConfig\<close> returns carries \<^verbatim>\<open>b\<close>, not \<^verbatim>\<open>a\<close>.
\<close>

theorem loadConfig_shortname_counterexample:
  "map ShortName abbaFeeds = [''a'', ''b'', ''b'', ''a'']
   \<and> readsAndDecodes (goEnv (document ''.m4a'' abbaFeeds)) ''config.json''
   \<and> decoded (goEnv (document ''.m4a'' abbaFeeds)) ''config.json'' = document ''.m4a'' abbaFeeds
   \<and> Validate (document ''.m4a'' abbaFeeds) = None
   \<and> sanityChecks (document ''.m4a'' abbaFeeds)
   \<and> list_all (normalizable regexp_Compile) (take 3 abbaFeeds)
   \<and> loadConfig (goEnv (document ''.m4a'' abbaFeeds)) ''config.json''
       = Some (None, Some (shortnameError ''b''))
   \<and> shortnameError ''b'' \<noteq> shortnameError ''a''"
proof -
  have a: "map ShortName abbaFeeds = [''a'', ''b'', ''b'', ''a'']"
    by (simp add: abbaFeeds_def feed_def)
  have b: "shortnameError ''b'' \<noteq> shortnameError ''a''"
    by (simp add: shortnameError_def)
  from a goEnv_simps(2) goEnv_simps(1) load_checks_abba load_abba b
  show ?thesis by (intro conjI)
qed

text \<open>
  Claim C4, amended: the error carries the short name of the first colliding entry.
  When the file is read and decoded, the checks before the loop pass, the entry \<open>d\<close>
  has the short name of an entry before it, the entries before \<open>d\<close> have distinct short
  names, and the entries up to and including \<open>d\<close> can be normalized, \<^verbatim>\<open>loadConfig\<close>
  returns nil and the error \<^verbatim>\<open>multiple podcasts using shortname\<close> with the short name
  of \<open>d\<close>, whatever entries follow \<open>d\<close>: none of them is looked at. When all entries
  can be normalized and their short names are distinct, \<^verbatim>\<open>loadConfig\<close> returns a
  configuration with the same short names, and in every configuration that it returns
  no two entries share a short name.
\<close>

theorem loadConfig_shortname:
  "(\<forall>pre d rest.
      readsAndDecodes env path \<and> Validate (decoded env path) = None
      \<and> sanityChecks (decoded env path) \<and> Podcasts (decoded env path) = pre @ d # rest
      \<and> list_all (normalizable (Compile env)) (pre @ [d]) \<and> distinct (map ShortName pre)
      \<and> ShortName d \<in> set (map ShortName pre) \<longrightarrow>
      loadConfig env path = Some (None, Some (shortnameError (ShortName d))))
   \<and> (readsAndDecodes env path \<and> Validate (decoded env path) = None
        \<and> sanityChecks (decoded env path)
        \<and> list_all (normalizable (Compile env)) (Podcasts (decoded env path))
        \<and> distinct (map ShortName (Podcasts (decoded env path))) \<longrightarrow>
        (\<exists>c. loadConfig env path = Some (Some c, None)
             \<and> map ShortName (Podcasts c) = map ShortName (Podcasts (decoded env path))))
   \<and> (\<forall>c err. loadConfig env path = Some (Some c, err) \<longrightarrow>
         distinct (map ShortName (Podcasts c))
         \<and> map ShortName (Podcasts c) = map ShortName (Podcasts (decoded env path)))
   \<and> shortnameError ''foo''
       = ErrorString (''multiple podcasts using shortname '' @ [CHR 0x22] @ ''foo'' @ [CHR 0x22])"
proof -
  have a: "\<forall>pre d rest.
      readsAndDecodes env path \<and> Validate (decoded env path) = None
      \<and> sanityChecks (decoded env path) \<and> Podcasts (decoded env path) = pre @ d # rest
      \<and> list_all (normalizable (Compile env)) (pre @ [d]) \<and> distinct (map ShortName pre)
      \<and> ShortName d \<in> set (map ShortName pre) \<longrightarrow>
      loadConfig env path = Some (None, Some (shortnameError (ShortName d)))"
  proof (intro allI impI, elim conjE)
    fix pre d rest
    assume s: "readsAndDecodes env path" "Validate (decoded env path) = None"
      "sanityChecks (decoded env path)"
      and q: "Podcasts (decoded env path) = pre @ d # rest"
      and n: "list_all (normalizable (Compile env)) (pre @ [d])"
        "distinct (map ShortName pre)" "ShortName d \<in> set (map ShortName pre)"
    from podcastsLoop_first_collision [OF n, of rest] q
    have "podcastsLoop (Compile env) {} (Podcasts (decoded env path))
            = Some (Inl (shortnameError (ShortName d)))"
      by simp
    then show "loadConfig env path = Some (None, Some (shortnameError (ShortName d)))"
      by (simp add: loadConfig_checked [OF s])
  qed
  have c: "\<forall>c err. loadConfig env path = Some (Some c, err) \<longrightarrow>
         distinct (map ShortName (Podcasts c))
         \<and> map ShortName (Podcasts c) = map ShortName (Podcasts (decoded env path))"
  proof (intro allI impI)
    fix c err
    assume "loadConfig env path = Some (Some c, err)"
    from loadConfig_Some_config [OF this] obtain ps where
      l: "podcastsLoop (Compile env) {} (Podcasts (decoded env path)) = Some (Inr ps)" and
      c: "c = (decoded env path)
             \<lparr>YTDLWriteExt := TrimLeft (YTDLWriteExt (decoded env path)) ''.'', Podcasts := ps\<rparr>"
      by blast
    from podcastsLoop_Inr [OF l] have
      n: "list_all2 (normalizes (Compile env)) (Podcasts (decoded env path)) ps" and
      d: "distinct (map ShortName (Podcasts (decoded env path)))"
      by simp_all
    from list_normalizes_ShortName [OF n] d c
    show "distinct (map ShortName (Podcasts c))
         \<and> map ShortName (Podcasts c) = map ShortName (Podcasts (decoded env path))"
      by simp
  qed
  have b: "readsAndDecodes env path \<and> Validate (decoded env path) = None
        \<and> sanityChecks (decoded env path)
        \<and> list_all (normalizable (Compile env)) (Podcasts (decoded env path))
        \<and> distinct (map ShortName (Podcasts (decoded env path))) \<longrightarrow>
        (\<exists>c. loadConfig env path = Some (Some c, None)
             \<and> map ShortName (Podcasts c) = map ShortName (Podcasts (decoded env path)))"
  proof (intro impI, elim conjE)
    assume s: "readsAndDecodes env path" "Validate (decoded env path) = None"
      "sanityChecks (decoded env path)"
      and n: "list_all (normalizable (Compile env)) (Podcasts (decoded env path))"
      and d: "distinct (map ShortName (Podcasts (decoded env path)))"
    from loadConfig_succeeds [OF s n d] obtain c where
      "loadConfig env path = Some (Some c, None)" by blast
    with c show "\<exists>c. loadConfig env path = Some (Some c, None)
             \<and> map ShortName (Podcasts c) = map ShortName (Podcasts (decoded env path))"
      by blast
  qed
  have e: "shortnameError ''foo''
       = ErrorString (''multiple podcasts using shortname '' @ [CHR 0x22] @ ''foo'' @ [CHR 0x22])"
    by (simp add: shortnameError_def dquote_def)
  from a b c e show ?thesis by (intro conjI)
qed

text \<open>
  The document with the short names \<^verbatim>\<open>foo\<close>, \<^verbatim>\<open>bar\<close>, \<^verbatim>\<open>foo\<close>, \<^verbatim>\<open>baz\<close>, whose
  last entry has an epoch that does not parse, is refused for \<^verbatim>\<open>foo\<close>; the document
  with three feeds loads with its short names.
\<close>

theorem loadConfig_shortname_witness:
  "map ShortName fooFeeds = [''foo'', ''bar'', ''foo'', ''baz'']
   \<and> loadConfig (goEnv (document ''.m4a'' fooFeeds)) ''config.json''
       = Some (None, Some (shortnameError ''foo''))
   \<and> loadConfig (goEnv (document ''.m4a'' threeFeeds)) ''config.json''
       = Some (Some (document ''m4a'' threeLoaded), None)
   \<and> map ShortName (Podcasts (document ''m4a'' threeLoaded)) = [''a'', ''b'', ''c'']"
proof -
  let ?env = "goEnv (document ''.m4a'' fooFeeds)"
  let ?d = "feed ''foo'' ''x'' [] :: regexp podcast"
  let ?pre = "[feed ''foo'' [] [], feed ''bar'' [] []] :: regexp podcast list"
  have a: "map ShortName fooFeeds = [''foo'', ''bar'', ''foo'', ''baz'']"
    by (simp add: fooFeeds_def feed_def)
  have h: "readsAndDecodes ?env ''config.json''"
    "Validate (decoded ?env ''config.json'') = None"
    "sanityChecks (decoded ?env ''config.json'')"
    "Podcasts (decoded ?env ''config.json'') = ?pre @ ?d # [feed ''baz'' [] ''soon'']"
    "list_all (normalizable (Compile ?env)) (?pre @ [?d])"
    "distinct (map ShortName ?pre)"
    "ShortName ?d \<in> set (map ShortName ?pre)"
    using load_checks_foo
    by (simp_all add: goEnv_simps) (simp_all add: document_def fooFeeds_def feed_def)
  from loadConfig_shortname [of ?env "''config.json''"] h
  have "loadConfig ?env ''config.json'' = Some (None, Some (shortnameError (ShortName ?d)))"
    by blast
  moreover have "ShortName ?d = ''foo''" by (simp add: feed_def)
  ultimately have b: "loadConfig ?env ''config.json'' = Some (None, Some (shortnameError ''foo''))"
    by simp
  let ?env3 = "goEnv (document ''.m4a'' threeFeeds)"
  from loadConfig_shortname [of ?env3 "''config.json''"] load_threeFeeds
  have "map ShortName (Podcasts (document ''m4a'' threeLoaded))
          = map ShortName (Podcasts (decoded ?env3 ''config.json''))"
    by blast
  also have "\<dots> = [''a'', ''b'', ''c'']"
    by (simp add: goEnv_simps document_def threeFeeds_def feed_def)
  finally have c: "map ShortName (Podcasts (document ''m4a'' threeLoaded)) = [''a'', ''b'', ''c'']" .
  from a b load_threeFeeds c show ?thesis by (intro conjI)
qed

subsection \<open>Title filters\<close>




section \<open>Further properties\<close>

text \<open>
  A document that is read and decoded and is valid always loads, with a nil error, and
  the invariants hold on the configuration returned exactly when the decoded extension
  has a character other than the dot.
\<close>

theorem loadConfig_valid:
  assumes "readsAndDecodes env path" "validDocument (Compile env) (decoded env path)"
  shows "\<exists>c. loadConfig env path = Some (Some c, None)
     \<and> (invariants (Compile env) c \<longleftrightarrow> \<not> set (YTDLWriteExt (decoded env path)) \<subseteq> {CHR ''.''})"
proof -
  let ?doc = "decoded env path"
  note v = assms(2) [unfolded validDocument_def]
  from v have n: "list_all (normalizable (Compile env)) (Podcasts ?doc)"
    by (simp add: list_normalizable_iff)
  from v have d: "distinct (map ShortName (Podcasts ?doc))" by simp
  from loadConfig_succeeds [OF assms(1) validDocument_checks [OF assms(2)] n d]
  obtain ps where ps: "list_all2 (normalizes (Compile env)) (Podcasts ?doc) ps"
    and l: "loadConfig env path =
         Some (Some (?doc\<lparr>YTDLWriteExt := TrimLeft (YTDLWriteExt ?doc) ''.'',
                  Podcasts := ps\<rparr>), None)"
    by blast
  let ?c = "?doc\<lparr>YTDLWriteExt := TrimLeft (YTDLWriteExt ?doc) ''.'', Podcasts := ps\<rparr>"
  from list_all2_lengthD [OF ps] v have len: "3 \<le> length ps" by simp
  from list_normalizes_ShortName [OF ps] d have dis: "distinct (map ShortName ps)" by simp
  from list_normalizes_fields [OF ps] have
    e: "map EpochStr ps = map EpochStr (Podcasts ?doc)" and
    f: "map TitleFilterStr ps = map TitleFilterStr (Podcasts ?doc)"
    by simp_all
  have "list_all (\<lambda>p. EpochStr p = [] \<or> wellFormedDate (EpochStr p)) ps
          = list_all (\<lambda>s. s = [] \<or> wellFormedDate s) (map EpochStr ps)"
    by (simp add: list.pred_map comp_def)
  also have "\<dots> = list_all (\<lambda>p. EpochStr p = [] \<or> wellFormedDate (EpochStr p)) (Podcasts ?doc)"
    by (simp add: e list.pred_map comp_def)
  finally have ep: "list_all (\<lambda>p. EpochStr p = [] \<or> wellFormedDate (EpochStr p)) ps"
    using v by simp
  have "list_all (\<lambda>p. compiles (Compile env) (foldCaseExpr (TitleFilterStr p))) ps
          = list_all (\<lambda>s. compiles (Compile env) (foldCaseExpr s)) (map TitleFilterStr ps)"
    by (simp add: list.pred_map comp_def)
  also have "\<dots> = list_all (\<lambda>p. compiles (Compile env) (foldCaseExpr (TitleFilterStr p)))
                     (Podcasts ?doc)"
    by (simp add: f list.pred_map comp_def)
  finally have tf: "list_all (\<lambda>p. compiles (Compile env) (foldCaseExpr (TitleFilterStr p))) ps"
    using v by simp
  from v len dis ep tf
  have "invariants (Compile env) ?c \<longleftrightarrow> TrimLeft (YTDLWriteExt ?doc) ''.'' \<noteq> []"
    by (simp add: invariants_def)
  also have "\<dots> \<longleftrightarrow> \<not> set (YTDLWriteExt ?doc) \<subseteq> {CHR ''.''}"
    by (simp only: TrimLeft_dots dropWhile_empty)
  finally have "invariants (Compile env) ?c \<longleftrightarrow> \<not> set (YTDLWriteExt ?doc) \<subseteq> {CHR ''.''}" .
  with l show ?thesis by blast
qed

text \<open>The document with three feeds and the extension \<^verbatim>\<open>.m4a\<close>.\<close>

theorem loadConfig_valid_witness:
  "loadConfig (goEnv (document ''.m4a'' threeFeeds)) ''config.json''
     = Some (Some (document ''m4a'' threeLoaded), None)
   \<and> invariants regexp_Compile (document ''m4a'' threeLoaded)"
proof -
  let ?env = "goEnv (document ''.m4a'' threeFeeds)"
  have r: "readsAndDecodes ?env ''config.json''" by (simp add: goEnv_simps)
  have v: "validDocument (Compile ?env) (decoded ?env ''config.json'')"
    using valid_threeFeeds by (simp add: goEnv_simps)
  have x: "\<not> set (YTDLWriteExt (decoded ?env ''config.json'')) \<subseteq> {CHR ''.''}"
    by (simp add: goEnv_simps document_def)
  from loadConfig_valid [OF r v] obtain c where
    c: "loadConfig ?env ''config.json'' = Some (Some c, None)" and
    i: "invariants (Compile ?env) c \<longleftrightarrow> \<not> set (YTDLWriteExt (decoded ?env ''config.json'')) \<subseteq> {CHR ''.''}"
    by blast
  from c load_threeFeeds have "c = document ''m4a'' threeLoaded" by simp
  with i x have "invariants regexp_Compile (document ''m4a'' threeLoaded)"
    by (simp add: goEnv_simps)
  with load_threeFeeds show ?thesis by (intro conjI)
qed

text \<open>
  A document with a key and one or two feeds fails in \<^verbatim>\<open>Validate\<close>, with the
  validation error on the field of the podcasts alone, whatever its other fields hold:
  no sanity check and no entry is looked at.
\<close>

theorem loadConfig_few_feeds:
  assumes "readsAndDecodes env path" "Podcasts (decoded env path) \<noteq> []"
    "length (Podcasts (decoded env path)) < 3" "YTDataAPIKey (decoded env path) \<noteq> []"
  shows "Validate (decoded env path) = Some (ValidationErrors [Podcasts_field])
     \<and> loadConfig env path = Some (None, Some (ValidationErrors [Podcasts_field]))"
proof -
  from assms(2-4) have v: "Validate (decoded env path) = Some (ValidationErrors [Podcasts_field])"
    by (simp add: Validate_def Required_def Length_def)
  with assms(1) have "loadConfig env path = Some (None, Some (ValidationErrors [Podcasts_field]))"
    by (auto simp: loadConfig_def readsAndDecodes_def decoded_def split: prod.splits)
  with v show ?thesis by simp
qed

text \<open>A document with two feeds.\<close>

theorem loadConfig_few_feeds_witness:
  "loadConfig (goEnv (document ''.m4a'' [feed ''a'' [] [], feed ''b'' [] []])) ''config.json''
     = Some (None, Some (ValidationErrors [Podcasts_field]))"
proof -
  let ?env = "goEnv (document ''.m4a'' [feed ''a'' [] [], feed ''b'' [] []])"
  have "readsAndDecodes ?env ''config.json''" "Podcasts (decoded ?env ''config.json'') \<noteq> []"
    "length (Podcasts (decoded ?env ''config.json'')) < 3"
    "YTDataAPIKey (decoded ?env ''config.json'') \<noteq> []"
    by (simp_all add: goEnv_simps document_def)
  from loadConfig_few_feeds [OF this] show ?thesis by simp
qed

text \<open>
  A document that passes every stage loads to a configuration with the policy of the
  decoded document, the extension without its leading dots; every configuration that
  \<^verbatim>\<open>loadConfig\<close> returns comes with a nil error and has that policy. Its interval,
  format selector, host and port pass their checks, and its extension is empty exactly
  when the decoded one consists of dots.
\<close>

theorem loadConfig_policy:
  "(readsAndDecodes env path \<and> Validate (decoded env path) = None
      \<and> sanityChecks (decoded env path)
      \<and> list_all (normalizable (Compile env)) (Podcasts (decoded env path))
      \<and> distinct (map ShortName (Podcasts (decoded env path))) \<longrightarrow>
      (\<exists>c. loadConfig env path = Some (Some c, None) \<and> policyOf (decoded env path) c))
   \<and> (\<forall>c err. loadConfig env path = Some (Some c, err) \<longrightarrow>
         err = None \<and> policyOf (decoded env path) c)"
proof -
  have a: "\<forall>c err. loadConfig env path = Some (Some c, err) \<longrightarrow>
         err = None \<and> policyOf (decoded env path) c"
  proof (intro allI impI)
    fix c err
    assume "loadConfig env path = Some (Some c, err)"
    from loadConfig_Some_config [OF this] obtain ps where
      e: "err = None" and v: "Validate (decoded env path) = None"
      and s: "sanityChecks (decoded env path)"
      and c: "c = (decoded env path)
             \<lparr>YTDLWriteExt := TrimLeft (YTDLWriteExt (decoded env path)) ''.'', Podcasts := ps\<rparr>"
      by blast
    from v have k: "YTDataAPIKey (decoded env path) \<noteq> []"
      by (auto simp: Validate_def Required_def split: if_splits)
    from s k c have "policyOf (decoded env path) c"
      by (auto simp: policyOf_def sanityChecks_def TrimLeft_dots dropWhile_empty)
    with e show "err = None \<and> policyOf (decoded env path) c" by simp
  qed
  have b: "readsAndDecodes env path \<and> Validate (decoded env path) = None
      \<and> sanityChecks (decoded env path)
      \<and> list_all (normalizable (Compile env)) (Podcasts (decoded env path))
      \<and> distinct (map ShortName (Podcasts (decoded env path))) \<longrightarrow>
      (\<exists>c. loadConfig env path = Some (Some c, None) \<and> policyOf (decoded env path) c)"
  proof (intro impI, elim conjE)
    assume s: "readsAndDecodes env path" "Validate (decoded env path) = None"
      "sanityChecks (decoded env path)"
      and n: "list_all (normalizable (Compile env)) (Podcasts (decoded env path))"
      and d: "distinct (map ShortName (Podcasts (decoded env path)))"
    from loadConfig_succeeds [OF s n d] obtain c where
      "loadConfig env path = Some (Some c, None)" by blast
    with a show "\<exists>c. loadConfig env path = Some (Some c, None) \<and> policyOf (decoded env path) c"
      by blast
  qed
  from b a show ?thesis by (intro conjI)
qed

text \<open>The document with the extension \<^verbatim>\<open>..\<close>.\<close>

theorem loadConfig_policy_witness:
  "loadConfig (goEnv (document ''..'' threeFeeds)) ''config.json''
     = Some (Some (document [] threeLoaded), None)
   \<and> policyOf (document ''..'' threeFeeds) (document [] threeLoaded)
   \<and> YTDLWriteExt (document [] threeLoaded) = []"
proof -
  let ?env = "goEnv (document ''..'' threeFeeds)"
  from loadConfig_policy [of ?env "''config.json''"] load_dots
  have "policyOf (decoded ?env ''config.json'') (document [] threeLoaded)" by blast
  then have "policyOf (document ''..'' threeFeeds) (document [] threeLoaded)"
    by (simp add: goEnv_simps)
  moreover have "YTDLWriteExt (document [] threeLoaded) = []" by (simp add: document_def)
  ultimately show ?thesis using load_dots by (intro conjI)
qed

end
